(* ===== verification/Prelude.thy ===== *)
theory Prelude
  imports Main
begin

text \<open>
  Shared vocabulary of the development: the Python exceptions the pipeline can raise,
  results as sums (\<open>Inl\<close> an exception, \<open>Inr\<close> a value) with their bind, and the
  Python string primitives the sources call (\<open>str.strip\<close>, \<open>str.join\<close>, \<open>str(int)\<close>,
  and the character classes \<open>\w\<close>, \<open>\d\<close> and simple lower-casing used by
  \<open>re\<close>). Strings are \<open>char list\<close>s and a \<open>char\<close> stands for the Unicode code
  point of the same number, so the model covers Python strings whose characters lie in
  Latin-1 (U+0000 to U+00FF); the character classes are those of Python 3 on that range.
\<close>

named_theorems chr_class "evaluation rules of the Python character classes"
named_theorems res_simps "rules for results of type exception + value"

type_synonym path = string

subsection \<open>Exceptions and results\<close>

text \<open>
  Every exception a call of the pipeline can raise, with the message \<open>str(e)\<close>
  carries where the source shows it to the client.
\<close>

datatype pyexc =
    PdfOpenError string          \<comment> \<open>\<open>pdfplumber.open\<close>: missing or malformed file\<close>
  | NoneStrip                    \<comment> \<open>\<open>None.strip()\<close>: AttributeError\<close>
  | ConvertError string          \<comment> \<open>\<open>pdf2image.convert_from_path\<close> failed\<close>
  | TesseractError string        \<comment> \<open>\<open>pytesseract.image_to_string\<close> failed\<close>
  | ModelCallError string        \<comment> \<open>\<open>model.generate_content\<close> failed\<close>
  | JSONDecodeError string       \<comment> \<open>\<open>json.loads\<close> rejected the response\<close>
  | OSError string               \<comment> \<open>a file could not be opened, read or written\<close>
  | FileExistsError string       \<comment> \<open>\<open>os.mkdir\<close>: the path exists\<close>
  | ValueError string            \<comment> \<open>\<open>PurePath.with_suffix\<close> refused the path\<close>

definition res_bind :: "'e + 'a \<Rightarrow> ('a \<Rightarrow> 'e + 'b) \<Rightarrow> 'e + 'b" where
  "res_bind m f = (case m of Inl e \<Rightarrow> Inl e | Inr a \<Rightarrow> f a)"

lemma res_bind_Inl [simp, res_simps]: "res_bind (Inl e) f = Inl e"
  by (simp add: res_bind_def)

lemma res_bind_Inr [simp, res_simps]: "res_bind (Inr a) f = f a"
  by (simp add: res_bind_def)

lemma res_bind_assoc [simp, res_simps]:
  "res_bind (res_bind m f) g = res_bind m (\<lambda>x. res_bind (f x) g)"
  by (cases m) (simp_all add: res_bind_def)

lemma res_bind_eq_Inr [res_simps]:
  "res_bind m f = Inr b \<longleftrightarrow> (\<exists>a. m = Inr a \<and> f a = Inr b)"
  by (cases m) (auto simp: res_bind_def)

lemma res_bind_eq_Inl [res_simps]:
  "res_bind m f = Inl e \<longleftrightarrow> m = Inl e \<or> (\<exists>a. m = Inr a \<and> f a = Inl e)"
  by (cases m) (auto simp: res_bind_def)

subsection \<open>Character classes of Python 3 on Latin-1\<close>

text \<open>
  \<open>str.isspace\<close> (what \<open>str.strip()\<close> removes): tab to carriage return,
  the separators U+001C to U+001F, space, NEL (U+0085) and no-break space (U+00A0).
\<close>

definition py_isspace :: "char \<Rightarrow> bool" where
  "py_isspace c =
     (let n = of_char c :: nat in
      (9 \<le> n \<and> n \<le> 13) \<or> (28 \<le> n \<and> n \<le> 32) \<or> n = 133 \<or> n = 160)"

text \<open>
  \<open>\d\<close> of \<open>re\<close> on a \<open>str\<close> pattern is a Unicode decimal digit: on Latin-1
  only the ASCII digits.
\<close>

definition is_digit :: "char \<Rightarrow> bool" where
  "is_digit c = (let n = of_char c :: nat in 48 \<le> n \<and> n \<le> 57)"

text \<open>
  \<open>\w\<close> (and so \<open>\b\<close>) is \<open>str.isalnum\<close> or underscore: ASCII letters and
  digits, \<open>_\<close>, and on the upper half of Latin-1 the letters (except \<open>\<times>\<close> and
  \<open>\<div>\<close>), the ordinal indicators, the micro sign, the superscript digits and the
  vulgar fractions.
\<close>

definition is_word :: "char \<Rightarrow> bool" where
  "is_word c =
     (let n = of_char c :: nat in
      (48 \<le> n \<and> n \<le> 57) \<or> (65 \<le> n \<and> n \<le> 90) \<or> n = 95 \<or> (97 \<le> n \<and> n \<le> 122) \<or>
      n = 170 \<or> n = 178 \<or> n = 179 \<or> n = 181 \<or> n = 185 \<or> n = 186 \<or>
      (188 \<le> n \<and> n \<le> 190) \<or> (192 \<le> n \<and> n \<le> 255 \<and> n \<noteq> 215 \<and> n \<noteq> 247))"

text \<open>
  Simple lower-casing, as \<open>re.IGNORECASE\<close> compares characters: on Latin-1 the
  capitals A to Z and U+00C0 to U+00DE (but \<open>\<times>\<close>) move up by 32.
\<close>

definition py_lower :: "char \<Rightarrow> char" where
  "py_lower c =
     (let n = of_char c :: nat in
      if (65 \<le> n \<and> n \<le> 90) \<or> (192 \<le> n \<and> n \<le> 222 \<and> n \<noteq> 215) then char_of (n + 32) else c)"

lemmas chr_class_defs [chr_class] = py_isspace_def is_digit_def is_word_def py_lower_def

lemma is_digit_is_word [intro]: "is_digit c \<Longrightarrow> is_word c"
  by (simp add: is_digit_def is_word_def Let_def)

lemma py_isspace_not_word: "py_isspace c \<Longrightarrow> \<not> is_word c"
  by (auto simp: py_isspace_def is_word_def Let_def)

text \<open>
  A character that lower-cases to the lower case of an ASCII letter is a word
  character: case-insensitive matching of a letter never reaches a non-word character.
\<close>

definition is_ascii_letter :: "char \<Rightarrow> bool" where
  "is_ascii_letter c =
     (let n = of_char c :: nat in (65 \<le> n \<and> n \<le> 90) \<or> (97 \<le> n \<and> n \<le> 122))"

lemma of_char_char_of_small: "(n::nat) < 256 \<Longrightarrow> of_char (char_of n :: char) = n"
  by simp

definition lower_code :: "nat \<Rightarrow> nat" where
  "lower_code n = (if (65 \<le> n \<and> n \<le> 90) \<or> (192 \<le> n \<and> n \<le> 222 \<and> n \<noteq> 215) then n + 32 else n)"

lemma of_char_py_lower: "(of_char (py_lower c) :: nat) = lower_code (of_char c)"
proof (cases "(65 \<le> (of_char c :: nat) \<and> (of_char c :: nat) \<le> 90) \<or>
              (192 \<le> (of_char c :: nat) \<and> (of_char c :: nat) \<le> 222 \<and> (of_char c :: nat) \<noteq> 215)")
  case True
  then have "(of_char c :: nat) + 32 < 256" by auto
  with True show ?thesis by (simp add: py_lower_def lower_code_def Let_def)
next
  case False
  then have "py_lower c = c" by (auto simp: py_lower_def Let_def)
  with False show ?thesis by (simp add: lower_code_def)
qed

lemma lower_code_letter:
  assumes "lower_code n = lower_code m" and "(65 \<le> m \<and> m \<le> 90) \<or> (97 \<le> m \<and> m \<le> 122)"
  shows "(65 \<le> n \<and> n \<le> 90) \<or> (97 \<le> n \<and> n \<le> 122)"
proof -
  have "97 \<le> lower_code m \<and> lower_code m \<le> 122"
    using assms(2) by (auto simp: lower_code_def)
  then have "97 \<le> lower_code n \<and> lower_code n \<le> 122" using assms(1) by simp
  then show ?thesis by (simp add: lower_code_def split: if_splits)
qed

lemma py_lower_S [simp]: "py_lower CHR ''S'' = CHR ''s''"
proof -
  have "char_of (115::nat) = CHR ''s''" by code_simp
  then show ?thesis by (simp add: py_lower_def)
qed

lemma py_lower_s [simp]: "py_lower CHR ''s'' = CHR ''s''"
  by (simp add: py_lower_def)

lemma py_lower_dollar [simp]: "py_lower CHR ''$'' = CHR ''$''"
  by (simp add: py_lower_def)

lemma py_lower_ascii_letter_word:
  assumes "is_ascii_letter l" and "py_lower c = py_lower l"
  shows "is_word c"
proof -
  have "lower_code (of_char c) = lower_code (of_char l)"
    using arg_cong [OF assms(2), of "of_char :: char \<Rightarrow> nat"] by (simp add: of_char_py_lower)
  moreover have "(65 \<le> (of_char l :: nat) \<and> (of_char l :: nat) \<le> 90) \<or>
                  (97 \<le> (of_char l :: nat) \<and> (of_char l :: nat) \<le> 122)"
    using assms(1) by (simp add: is_ascii_letter_def Let_def)
  ultimately have "(65 \<le> (of_char c :: nat) \<and> (of_char c :: nat) \<le> 90) \<or>
             (97 \<le> (of_char c :: nat) \<and> (of_char c :: nat) \<le> 122)"
    by (rule lower_code_letter)
  then show ?thesis by (auto simp: is_word_def)
qed

subsection \<open>\<open>str.strip\<close>, \<open>str.join\<close>, \<open>str(int)\<close>\<close>

definition py_strip :: "string \<Rightarrow> string" where
  "py_strip s = rev (dropWhile py_isspace (rev (dropWhile py_isspace s)))"

lemma py_strip_empty_iff: "py_strip s = [] \<longleftrightarrow> list_all py_isspace s"
  by (induction s) (auto simp: py_strip_def list_all_iff dropWhile_eq_Nil_conv)

lemma dropWhile_hd_keep: "xs = [] \<or> \<not> P (hd xs) \<Longrightarrow> dropWhile P xs = xs"
  by (cases xs) auto

lemma last_dropWhile: "dropWhile P ys \<noteq> [] \<Longrightarrow> last (dropWhile P ys) = last ys"
  by (simp add: dropWhile_eq_drop last_drop)

lemma py_strip_idem: "py_strip (py_strip s) = py_strip s"
proof -
  let ?a = "dropWhile py_isspace s"
  let ?b = "dropWhile py_isspace (rev ?a)"
  have b: "?b = [] \<or> \<not> py_isspace (hd ?b)" using hd_dropWhile [of py_isspace "rev ?a"] by blast
  have "rev ?b = [] \<or> \<not> py_isspace (hd (rev ?b))"
  proof (cases "?b = []")
    case False
    have "?a \<noteq> []"
    proof
      assume a: "?a = []"
      from False show False unfolding a by simp
    qed
    then have "\<not> py_isspace (hd ?a)" by (simp add: hd_dropWhile)
    moreover have "hd (rev ?b) = hd ?a"
      using False last_dropWhile [of py_isspace "rev ?a"] \<open>?a \<noteq> []\<close>
      by (simp add: hd_rev last_rev)
    ultimately show ?thesis by simp
  qed simp
  then have "dropWhile py_isspace (rev ?b) = rev ?b" by (rule dropWhile_hd_keep)
  moreover have "dropWhile py_isspace ?b = ?b" using b by (rule dropWhile_hd_keep)
  ultimately show ?thesis by (simp add: py_strip_def)
qed

lemma py_strip_decomp:
  obtains a b where "s = a @ py_strip s @ b" and "list_all py_isspace a" and "list_all py_isspace b"
    and "py_strip s = [] \<or> \<not> py_isspace (hd (py_strip s)) \<and> \<not> py_isspace (last (py_strip s))"
proof -
  let ?a = "takeWhile py_isspace s" and ?d = "dropWhile py_isspace s"
  let ?b = "rev (takeWhile py_isspace (rev ?d))"
  have d: "?d = rev (dropWhile py_isspace (rev ?d)) @ ?b"
    by (metis rev_append rev_rev_ident takeWhile_dropWhile_id)
  have s: "s = ?a @ py_strip s @ ?b"
    using d takeWhile_dropWhile_id [of py_isspace s] by (simp add: py_strip_def)
  have ends: "py_strip s = [] \<or> \<not> py_isspace (hd (py_strip s)) \<and> \<not> py_isspace (last (py_strip s))"
  proof (cases "py_strip s = []")
    case False
    have "\<not> py_isspace (last (py_strip s))"
      using False hd_dropWhile [of py_isspace "rev ?d"] by (simp add: py_strip_def last_rev)
    moreover have "\<not> py_isspace (hd (py_strip s))"
    proof -
      have ne: "dropWhile py_isspace (rev ?d) \<noteq> []" using False by (simp add: py_strip_def)
      then have "?d \<noteq> []" by (metis Nil_is_rev_conv dropWhile.simps(1))
      then have "\<not> py_isspace (hd ?d)" by (simp add: hd_dropWhile)
      moreover have "hd (py_strip s) = hd ?d"
        using ne last_dropWhile [of py_isspace "rev ?d"] \<open>?d \<noteq> []\<close>
        by (simp add: py_strip_def hd_rev last_rev)
      ultimately show ?thesis by simp
    qed
    ultimately show ?thesis by simp
  qed simp
  show ?thesis
    by (rule that [OF s _ _ ends]) (auto simp: list_all_iff dest: set_takeWhileD)
qed

lemma py_strip_frame:
  assumes "list_all py_isspace a" and "list_all py_isspace b"
    and "x = [] \<or> \<not> py_isspace (hd x) \<and> \<not> py_isspace (last x)"
  shows "py_strip (a @ x @ b) = x"
proof (cases "x = []")
  case True
  with assms(1,2) show ?thesis by (simp add: py_strip_empty_iff)
next
  case False
  with assms(3) have h: "\<not> py_isspace (hd x)" and l: "\<not> py_isspace (hd (rev x))"
    by (simp_all add: hd_rev)
  have "dropWhile py_isspace (a @ x @ b) = x @ b"
    using assms(1) h False by (cases x) (simp_all add: dropWhile_append list_all_iff)
  moreover have "dropWhile py_isspace (rev b @ rev x) = rev x"
    using assms(2) l False by (simp add: dropWhile_append list_all_iff dropWhile_hd_keep)
  ultimately show ?thesis by (simp add: py_strip_def)
qed

primrec py_join :: "string \<Rightarrow> string list \<Rightarrow> string" where
  "py_join sep [] = []"
| "py_join sep (x # xs) = x @ (if xs = [] then [] else sep @ py_join sep xs)"

lemma py_join_snoc: "xs \<noteq> [] \<Longrightarrow> py_join sep (xs @ [x]) = py_join sep xs @ sep @ x"
  by (induction xs) auto

lemma py_join_snoc_butlast:
  "ys = butlast ys @ [y] \<Longrightarrow> butlast ys \<noteq> [] \<Longrightarrow> py_join sep ys = py_join sep (butlast ys) @ sep @ y"
  by (metis py_join_snoc)

text \<open>\<open>str.endswith\<close>.\<close>

definition py_endswith :: "string \<Rightarrow> string \<Rightarrow> bool" where
  "py_endswith s x \<longleftrightarrow> length x \<le> length s \<and> drop (length s - length x) s = x"

lemma py_endswith_append [simp]: "py_endswith (a @ x) x"
  by (simp add: py_endswith_def)

definition digit_char :: "nat \<Rightarrow> char" where
  "digit_char d = char_of (48 + d)"

fun str_nat :: "nat \<Rightarrow> string" where
  "str_nat n = (if n < 10 then [digit_char n] else str_nat (n div 10) @ [digit_char (n mod 10)])"

declare str_nat.simps [simp del]

lemma str_nat_nonempty: "str_nat n \<noteq> []"
  by (subst str_nat.simps) simp

lemma digit_char_is_digit: "d < 10 \<Longrightarrow> is_digit (digit_char d)"
  by (simp add: digit_char_def is_digit_def of_char_char_of_small)

lemma str_nat_digits: "list_all is_digit (str_nat n)"
proof (induction n rule: str_nat.induct)
  case (1 n)
  then show ?case
    by (subst str_nat.simps) (simp add: digit_char_is_digit)
qed

text \<open>Reading a decimal numeral back, \<open>int(ds)\<close> on digits.\<close>

definition digits_val :: "string \<Rightarrow> nat" where
  "digits_val ds = foldl (\<lambda>a c. 10 * a + (of_char c - 48)) 0 ds"

lemma digits_val_str_nat: "digits_val (str_nat n) = n"
proof (induction n rule: str_nat.induct)
  case (1 n)
  show ?case
  proof (cases "n < 10")
    case True
    then show ?thesis by (subst str_nat.simps) (simp add: digits_val_def digit_char_def)
  next
    case False
    then have "digits_val (str_nat n) = 10 * digits_val (str_nat (n div 10)) + n mod 10"
      by (subst str_nat.simps) (simp add: digits_val_def digit_char_def)
    with 1 False show ?thesis by simp
  qed
qed

subsection \<open>List facts shared by the components\<close>

lemma first_filter_unique:
  assumes "\<forall>x \<in> set xs. P x \<longrightarrow> x = y"
  shows "(case filter P xs of [] \<Rightarrow> None | m # _ \<Rightarrow> Some m) =
         (if \<exists>x \<in> set xs. P x then Some y else None)"
  using assms by (induction xs) auto

lemma map_nth_upt_take_drop:
  "b \<le> length s \<Longrightarrow> map (\<lambda>j. s ! j) [a..<b] = take (b - a) (drop a s)"
  by (rule nth_equalityI) auto

lemma upt_split3:
  assumes "i < e" and "e \<le> n"
  shows "[i..<n] = i # [Suc i..<e] @ [e..<n]"
proof -
  have "[i..<n] = [i..<e] @ [e..<n]"
    using assms upt_add_eq_append [of i e "n - e"] by simp
  also have "[i..<e] = i # [Suc i..<e]" using assms(1) by (rule upt_conv_Cons)
  finally show ?thesis by simp
qed

lemma takeWhile_length_eq_iff:
  assumes "n \<le> length t" and "\<forall>k < n. P (t ! k)"
  shows "length (takeWhile P t) = n \<longleftrightarrow> (n = length t \<or> \<not> P (t ! n))"
proof
  assume l: "length (takeWhile P t) = n"
  show "n = length t \<or> \<not> P (t ! n)"
  proof (cases "n < length t")
    case True
    with l nth_length_takeWhile [of P t] show ?thesis by auto
  next
    case False
    with assms(1) show ?thesis by simp
  qed
next
  assume "n = length t \<or> \<not> P (t ! n)"
  then have "takeWhile P t = take n t"
    using assms by (intro takeWhile_eq_take_P_nth) auto
  with assms(1) show "length (takeWhile P t) = n" by simp
qed

end
