(* ===== verification/Regex.thy ===== *)
theory Regex
  imports Prelude
begin

text \<open>
  The part of Python's \<open>re\<close> module that \<open>src/pdf_to_text.py\<close> calls: a compiled
  pattern built from word boundaries \<open>\b\<close>, literals, the class \<open>\d\<close>, greedy
  single-character repetition \<open>+\<close>, alternation \<open>|\<close>, concatenation and one
  capturing group, matched with or without \<open>re.IGNORECASE\<close>; and \<open>Pattern.sub\<close>
  with a replacement template of literal characters and the back-reference \<open>\1\<close>.

  \<open>rx_match\<close> returns every way the pattern can match at a position, in the order
  Python's backtracking matcher tries them: the first element is the match \<open>re\<close>
  reports. A greedy repeat of one character class tries the longest run first and gives
  back one character at a time (\<open>sre\<close>'s REPEAT_ONE); an alternation tries its left
  branch first. Each result is the end position and the span of the group.
  \<open>sub_from\<close> is the scan of \<open>Pattern.sub\<close>: at each position the first match
  is replaced by the expanded template and the scan resumes at its end; elsewhere the
  character is copied. Patterns that can match the empty string are outside the model
  (an empty match is treated as no match); the pattern of the program never matches
  the empty string (\<open>PriceFix.price_pattern_nonempty\<close>).
\<close>

datatype cls = CDigit | CChr char

datatype rx =
    REps
  | RBound
  | RCls cls
  | RPlus cls
  | RSeq rx rx
  | RAlt rx rx
  | RGroup rx

type_synonym span = "nat \<times> nat"
type_synonym mres = "nat \<times> span option"

definition cls_ok :: "bool \<Rightarrow> cls \<Rightarrow> char \<Rightarrow> bool" where
  "cls_ok ic k c =
     (case k of CDigit \<Rightarrow> is_digit c | CChr d \<Rightarrow> (if ic then py_lower c = py_lower d else c = d))"

text \<open>\<open>\b\<close>: never in the empty string, else the word-ness of the characters on
  the two sides differ (\<open>SRE_AT_UNI_BOUNDARY\<close>).\<close>

definition at_boundary :: "string \<Rightarrow> nat \<Rightarrow> bool" where
  "at_boundary s i =
     (s \<noteq> [] \<and>
      ((0 < i \<and> i \<le> length s \<and> is_word (s ! (i - 1))) \<noteq> (i < length s \<and> is_word (s ! i))))"

definition run_len :: "bool \<Rightarrow> cls \<Rightarrow> string \<Rightarrow> nat \<Rightarrow> nat" where
  "run_len ic k s i = length (takeWhile (cls_ok ic k) (drop i s))"

primrec rx_match :: "bool \<Rightarrow> string \<Rightarrow> rx \<Rightarrow> nat \<Rightarrow> mres list" where
  "rx_match ic s REps i = [(i, None)]"
| "rx_match ic s RBound i = (if at_boundary s i then [(i, None)] else [])"
| "rx_match ic s (RCls k) i =
     (if i < length s \<and> cls_ok ic k (s ! i) then [(Suc i, None)] else [])"
| "rx_match ic s (RPlus k) i = map (\<lambda>n. (i + n, None)) (rev [1..<Suc (run_len ic k s i)])"
| "rx_match ic s (RSeq r1 r2) i =
     concat (map (\<lambda>(e, g). map (\<lambda>(e', g'). (e', case g' of None \<Rightarrow> g | Some _ \<Rightarrow> g'))
                               (rx_match ic s r2 e))
                 (rx_match ic s r1 i))"
| "rx_match ic s (RAlt r1 r2) i = rx_match ic s r1 i @ rx_match ic s r2 i"
| "rx_match ic s (RGroup r) i = map (\<lambda>(e, g). (e, Some (i, e))) (rx_match ic s r i)"

definition rx_first :: "bool \<Rightarrow> rx \<Rightarrow> string \<Rightarrow> nat \<Rightarrow> mres option" where
  "rx_first ic r s i = (case rx_match ic s r i of [] \<Rightarrow> None | m # _ \<Rightarrow> Some m)"

text \<open>What \<open>re.compile\<close> makes of a literal word and of \<open>a|b|c\<close>.\<close>

definition rx_lit :: "string \<Rightarrow> rx" where
  "rx_lit w = foldr (\<lambda>c r. RSeq (RCls (CChr c)) r) w REps"

fun rx_alts :: "rx list \<Rightarrow> rx" where
  "rx_alts [] = REps"
| "rx_alts [r] = r"
| "rx_alts (r # rs) = RAlt r (rx_alts rs)"

subsection \<open>Replacement templates and \<open>Pattern.sub\<close>\<close>

datatype titem = TChr char | TGroup

definition group_text :: "string \<Rightarrow> span option \<Rightarrow> string" where
  "group_text s g = (case g of None \<Rightarrow> [] | Some (a, b) \<Rightarrow> take (b - a) (drop a s))"

definition expand :: "titem list \<Rightarrow> string \<Rightarrow> span option \<Rightarrow> string" where
  "expand tpl s g = concat (map (\<lambda>t. case t of TChr c \<Rightarrow> [c] | TGroup \<Rightarrow> group_text s g) tpl)"

function sub_from :: "bool \<Rightarrow> rx \<Rightarrow> titem list \<Rightarrow> string \<Rightarrow> nat \<Rightarrow> string" where
  "sub_from ic r tpl s i =
     (if length s \<le> i then []
      else case rx_first ic r s i of
             Some (e, g) \<Rightarrow>
               if i < e then expand tpl s g @ sub_from ic r tpl s e
               else s ! i # sub_from ic r tpl s (Suc i)
           | None \<Rightarrow> s ! i # sub_from ic r tpl s (Suc i))"
  by pat_completeness auto
termination
  by (relation "measure (\<lambda>(ic, r, tpl, s, i). length s - i)") auto

declare sub_from.simps [simp del]

definition re_sub :: "bool \<Rightarrow> rx \<Rightarrow> titem list \<Rightarrow> string \<Rightarrow> string" where
  "re_sub ic r tpl s = sub_from ic r tpl s 0"

subsection \<open>Matching lemmas\<close>

lemma case_option_self: "(case g of None \<Rightarrow> None | Some _ \<Rightarrow> g) = g"
  by (cases g) auto

lemma rx_match_bound_seq:
  "rx_match ic s (RSeq RBound r) i = (if at_boundary s i then rx_match ic s r i else [])"
proof -
  have "map (\<lambda>(e', g'). (e', case g' of None \<Rightarrow> None | Some _ \<Rightarrow> g')) xs = xs" for xs :: "mres list"
    by (induction xs) (auto simp: case_option_self)
  then show ?thesis by simp
qed

lemma rx_match_cls_seq:
  "rx_match ic s (RSeq (RCls k) r) i =
     (if i < length s \<and> cls_ok ic k (s ! i) then rx_match ic s r (Suc i) else [])"
proof -
  have "map (\<lambda>(e', g'). (e', case g' of None \<Rightarrow> None | Some _ \<Rightarrow> g')) xs = xs" for xs :: "mres list"
    by (induction xs) (auto simp: case_option_self)
  then show ?thesis by auto
qed

lemma concat_map_if_single:
  "concat (map (\<lambda>x. if P x then [f x] else []) xs) = map f (filter P xs)"
  by (induction xs) auto

lemma rx_match_seq_bound:
  "rx_match ic s (RSeq r RBound) i =
     filter (\<lambda>(e, g). at_boundary s e) (rx_match ic s r i)"
proof -
  have "concat (map (\<lambda>(e, g). map (\<lambda>(e', g'). (e', case g' of None \<Rightarrow> g | Some _ \<Rightarrow> g'))
             (if at_boundary s e then [(e, None)] else [])) xs)
        = filter (\<lambda>(e, g). at_boundary s e) xs" for xs :: "mres list"
    by (induction xs) auto
  then show ?thesis by simp
qed

lemma rx_match_group:
  "map fst (rx_match ic s (RGroup r) i) = map fst (rx_match ic s r i)"
  "\<forall>m \<in> set (rx_match ic s (RGroup r) i). snd m = Some (i, fst m)"
  by (induction "rx_match ic s r i") auto

primrec lit_at :: "bool \<Rightarrow> string \<Rightarrow> string \<Rightarrow> nat \<Rightarrow> bool" where
  "lit_at ic [] s i = True"
| "lit_at ic (c # w) s i = (i < length s \<and> cls_ok ic (CChr c) (s ! i) \<and> lit_at ic w s (Suc i))"

lemma rx_match_lit:
  "rx_match ic s (rx_lit w) i = (if lit_at ic w s i then [(i + length w, None)] else [])"
  by (induction w arbitrary: i) (simp_all add: rx_lit_def rx_match_cls_seq)

lemma rx_match_alts:
  "rs \<noteq> [] \<Longrightarrow> rx_match ic s (rx_alts rs) i = concat (map (\<lambda>r. rx_match ic s r i) rs)"
  by (induction rs rule: rx_alts.induct) auto

lemma rx_match_plus_ends:
  "set (map fst (rx_match ic s (RPlus k) i)) = {i + n | n. 1 \<le> n \<and> n \<le> run_len ic k s i}"
  by auto

lemma lit_at_nth:
  "i \<le> length s \<Longrightarrow> lit_at ic w s i \<longleftrightarrow> i + length w \<le> length s \<and> (\<forall>n < length w. cls_ok ic (CChr (w ! n)) (s ! (i + n)))"
proof (induction w arbitrary: i)
  case Nil
  then show ?case by simp
next
  case (Cons c w)
  show ?case
  proof (cases "i < length s")
    case True
    then show ?thesis
      unfolding lit_at.simps Cons.IH [OF Suc_leI [OF True]]
      by (auto simp: less_Suc_eq_0_disj nth_Cons split: nat.splits)
  next
    case False
    then show ?thesis by simp
  qed
qed

end
