(* ===== verification/PriceFix.thy ===== *)
theory PriceFix
  imports Regex
begin

definition PRICE_WORDS :: "string list" where
  "PRICE_WORDS = [''ten'', ''twelve'', ''fifteen'', ''twenty'']"

definition price_words_pattern :: rx where
  "price_words_pattern = rx_alts (map rx_lit PRICE_WORDS)"

definition price_pattern :: rx where
  "price_pattern =
     RSeq RBound (RSeq (RCls (CChr CHR ''S''))
       (RSeq (RGroup (RAlt (RPlus CDigit) price_words_pattern)) RBound))"

definition price_repl :: "titem list" where
  "price_repl = [TChr CHR ''$'', TGroup]"

definition fix_price_words :: "string \<Rightarrow> string" where
  "fix_price_words text = re_sub True price_pattern price_repl text"

definition clean_ocr_text :: "string \<Rightarrow> string" where
  "clean_ocr_text text = fix_price_words text"

subsection \<open>The token-level specification\<close>

definition word_tok :: "string \<Rightarrow> nat \<Rightarrow> string" where
  "word_tok s j = takeWhile is_word (drop j s)"

definition price_token :: "string \<Rightarrow> bool" where
  "price_token t =
     ((t \<noteq> [] \<and> list_all is_digit t) \<or> list_ex (\<lambda>w. map py_lower t = map py_lower w) PRICE_WORDS)"

definition price_start :: "string \<Rightarrow> nat \<Rightarrow> bool" where
  "price_start s i =
     (i < length s \<and> (i = 0 \<or> \<not> is_word (s ! (i - 1))) \<and>
      py_lower (s ! i) = py_lower CHR ''S'' \<and> price_token (word_tok s (Suc i)))"

definition fix_spec :: "string \<Rightarrow> string" where
  "fix_spec s = map (\<lambda>j. if price_start s j then CHR ''$'' else s ! j) [0..<length s]"

subsection \<open>Matching the pattern\<close>

lemma price_words_ok: "\<forall>w \<in> set PRICE_WORDS. w \<noteq> [] \<and> list_all is_ascii_letter w"
  by (simp add: PRICE_WORDS_def is_ascii_letter_def)

lemma S_ascii_letter: "is_ascii_letter CHR ''S''"
  by (simp add: is_ascii_letter_def)

lemma boundary_after_word_prefix:
  assumes "0 < n" and "j + n \<le> length s" and "\<forall>k < n. is_word (s ! (j + k))"
  shows "at_boundary s (j + n) \<longleftrightarrow> n = length (word_tok s j)"
proof -
  let ?t = "drop j s"
  have nt: "n \<le> length ?t" using assms(2) by simp
  have pre: "\<forall>k < n. is_word (?t ! k)" using assms(2,3) by simp
  have "n - 1 < n" using assms(1) by simp
  then have "is_word (s ! (j + (n - 1)))" using assms(3) by blast
  moreover have "j + (n - 1) = j + n - 1" using assms(1) by simp
  ultimately have last: "is_word (s ! (j + n - 1))" by simp
  have "at_boundary s (j + n) \<longleftrightarrow> \<not> (j + n < length s \<and> is_word (s ! (j + n)))"
    using assms(1,2) last by (auto simp: at_boundary_def)
  also have "\<dots> \<longleftrightarrow> (n = length ?t \<or> \<not> is_word (?t ! n))"
    using assms(2) by auto
  also have "\<dots> \<longleftrightarrow> n = length (word_tok s j)"
    unfolding word_tok_def using takeWhile_length_eq_iff [OF nt pre] by auto
  finally show ?thesis .
qed

lemma boundary_at_word_char:
  "i < length s \<Longrightarrow> is_word (s ! i) \<Longrightarrow> at_boundary s i \<longleftrightarrow> (i = 0 \<or> \<not> is_word (s ! (i - 1)))"
  by (auto simp: at_boundary_def)

abbreviation price_alt :: rx where
  "price_alt \<equiv> RAlt (RPlus CDigit) price_words_pattern"

lemma price_alt_ends:
  "e \<in> set (map fst (rx_match True s price_alt j)) \<longleftrightarrow>
     (\<exists>n. e = j + n \<and> 1 \<le> n \<and> n \<le> run_len True CDigit s j) \<or>
     (\<exists>w \<in> set PRICE_WORDS. lit_at True w s j \<and> e = j + length w)"
proof -
  have "map rx_lit PRICE_WORDS \<noteq> []" by (simp add: PRICE_WORDS_def)
  then have "rx_match True s price_words_pattern j =
      concat (map (\<lambda>w. if lit_at True w s j then [(j + length w, None)] else []) PRICE_WORDS)"
    by (simp add: price_words_pattern_def rx_match_alts comp_def rx_match_lit)
  then have "map fst (rx_match True s price_alt j) =
      map (\<lambda>n. j + n) (rev [1..<Suc (run_len True CDigit s j)]) @
      map (\<lambda>w. j + length w) (filter (\<lambda>w. lit_at True w s j) PRICE_WORDS)"
    by (simp add: concat_map_if_single comp_def)
  then show ?thesis by auto
qed

lemma run_len_digit: "run_len True CDigit s j = length (takeWhile is_digit (drop j s))"
proof -
  have "cls_ok True CDigit = is_digit" by (simp add: cls_ok_def fun_eq_iff)
  then show ?thesis by (simp add: run_len_def)
qed

lemma digit_run_prefix:
  assumes "0 < n" and "n \<le> run_len True CDigit s j"
  shows "j + n \<le> length s" and "\<forall>k < n. is_digit (s ! (j + k))"
proof -
  let ?d = "takeWhile is_digit (drop j s)"
  have "n \<le> length ?d" using assms(2) by (simp add: run_len_digit)
  moreover have "length ?d \<le> length (drop j s)" by (rule length_takeWhile_le)
  ultimately show "j + n \<le> length s" using assms(1) by simp
  show "\<forall>k < n. is_digit (s ! (j + k))"
  proof (intro allI impI)
    fix k assume "k < n"
    with \<open>n \<le> length ?d\<close> have k: "k < length ?d" by simp
    then have "is_digit (?d ! k)" using set_takeWhileD [OF nth_mem [OF k]] by simp
    moreover have "?d ! k = drop j s ! k" using k by (rule takeWhile_nth)
    moreover have "k < length (drop j s)" using k length_takeWhile_le [of is_digit "drop j s"] by linarith
    ultimately show "is_digit (s ! (j + k))" by simp
  qed
qed

lemma lit_word_prefix:
  assumes "w \<in> set PRICE_WORDS" and "lit_at True w s j"
  shows "0 < length w" and "j + length w \<le> length s"
    and "\<forall>k < length w. is_word (s ! (j + k))"
    and "map py_lower (take (length w) (drop j s)) = map py_lower w"
proof -
  have w: "w \<noteq> []" "list_all is_ascii_letter w" using assms(1) price_words_ok by auto
  then show "0 < length w" by simp
  have "j < length s" using w(1) assms(2) by (cases w) auto
  then have j: "j \<le> length s" by simp
  have m: "j + length w \<le> length s \<and> (\<forall>n < length w. py_lower (s ! (j + n)) = py_lower (w ! n))"
    using assms(2) lit_at_nth [OF j] by (simp add: cls_ok_def)
  then show "j + length w \<le> length s" by simp
  show "\<forall>k < length w. is_word (s ! (j + k))"
  proof (intro allI impI)
    fix k assume "k < length w"
    then have "is_ascii_letter (w ! k)" and "py_lower (s ! (j + k)) = py_lower (w ! k)"
      using m w(2) by (simp_all add: list_all_length)
    then show "is_word (s ! (j + k))" by (rule py_lower_ascii_letter_word)
  qed
  show "map py_lower (take (length w) (drop j s)) = map py_lower w"
    using m by (intro nth_equalityI) auto
qed

lemma price_alt_end_boundary:
  assumes "e \<in> set (map fst (rx_match True s price_alt j))"
  shows "at_boundary s e \<longleftrightarrow> e = j + length (word_tok s j)"
  using assms unfolding price_alt_ends
proof (elim disjE exE conjE bexE)
  fix n assume e: "e = j + n" and n: "1 \<le> n" "n \<le> run_len True CDigit s j"
  then have "j + n \<le> length s" "\<forall>k < n. is_word (s ! (j + k))"
    using digit_run_prefix [of n s j] by auto
  with n(1) e show ?thesis by (simp add: boundary_after_word_prefix)
next
  fix w assume w: "w \<in> set PRICE_WORDS" "lit_at True w s j" and e: "e = j + length w"
  from lit_word_prefix [OF w] e show ?thesis by (simp add: boundary_after_word_prefix)
qed

lemma word_tok_take: "word_tok s j = take (length (word_tok s j)) (drop j s)"
  unfolding word_tok_def by (rule takeWhile_eq_take)

lemma word_tok_nth: "k < length (word_tok s j) \<Longrightarrow> s ! (j + k) = word_tok s j ! k \<and> is_word (s ! (j + k))"
proof -
  assume k: "k < length (word_tok s j)"
  then have "word_tok s j ! k = drop j s ! k" unfolding word_tok_def by (rule takeWhile_nth)
  moreover have "k < length (drop j s)"
    using k length_takeWhile_le [of is_word "drop j s"] unfolding word_tok_def by linarith
  moreover have "is_word (word_tok s j ! k)"
    using set_takeWhileD [OF nth_mem [OF k [unfolded word_tok_def]]] unfolding word_tok_def by simp
  ultimately show ?thesis by simp
qed

lemma word_tok_end: "j + length (word_tok s j) \<le> length s \<or> word_tok s j = []"
proof (cases "j < length s")
  case True
  have "length (takeWhile is_word (drop j s)) \<le> length s - j"
    using length_takeWhile_le [of is_word "drop j s"] by simp
  with True show ?thesis unfolding word_tok_def by (intro disjI1) linarith
next
  case False
  then show ?thesis by (simp add: word_tok_def)
qed

lemma price_alt_exists:
  "(\<exists>e \<in> set (map fst (rx_match True s price_alt j)). at_boundary s e) \<longleftrightarrow>
     price_token (word_tok s j)"
proof
  assume "\<exists>e \<in> set (map fst (rx_match True s price_alt j)). at_boundary s e"
  then obtain e where e: "e \<in> set (map fst (rx_match True s price_alt j))" "at_boundary s e" by blast
  then have eE: "e = j + length (word_tok s j)" using price_alt_end_boundary by blast
  from e(1) show "price_token (word_tok s j)" unfolding price_alt_ends
  proof (elim disjE exE conjE bexE)
    fix n assume "e = j + n" "1 \<le> n" "n \<le> run_len True CDigit s j"
    moreover from this have "\<forall>k < n. is_digit (s ! (j + k))" using digit_run_prefix(2) [of n s j] by simp
    ultimately show ?thesis using eE word_tok_nth [of _ s j]
      by (auto simp: price_token_def list_all_length)
  next
    fix w assume w: "w \<in> set PRICE_WORDS" "lit_at True w s j" "e = j + length w"
    then have "length w = length (word_tok s j)" using eE by simp
    with lit_word_prefix [OF w(1,2)] word_tok_take [of s j] w(1)
    show ?thesis by (auto simp: price_token_def list_ex_iff)
  qed
next
  assume "price_token (word_tok s j)"
  then consider (digits) "word_tok s j \<noteq> []" "list_all is_digit (word_tok s j)"
    | (word) w where "w \<in> set PRICE_WORDS" "map py_lower (word_tok s j) = map py_lower w"
    unfolding price_token_def list_ex_iff by blast
  then show "\<exists>e \<in> set (map fst (rx_match True s price_alt j)). at_boundary s e"
  proof cases
    case digits
    let ?n = "length (word_tok s j)"
    have le: "?n \<le> length (drop j s)"
      using length_takeWhile_le unfolding word_tok_def by metis
    have "\<forall>k < ?n. is_digit (drop j s ! k)"
      using digits(2) word_tok_nth [of _ s j] le by (auto simp: list_all_length)
    then have "?n \<le> run_len True CDigit s j"
      unfolding run_len_digit using le by (intro length_takeWhile_less_P_nth) auto
    moreover have "1 \<le> ?n" using digits(1) by (simp add: Suc_leI)
    ultimately have "j + ?n \<in> set (map fst (rx_match True s price_alt j))"
      unfolding price_alt_ends by blast
    then show ?thesis using price_alt_end_boundary by blast
  next
    case word
    have len: "length w = length (word_tok s j)" using word(2) by (metis length_map)
    have "w \<noteq> []" using word(1) price_words_ok by auto
    then have ne: "word_tok s j \<noteq> []" using len by auto
    then have j: "j + length w \<le> length s" using word_tok_end [of j s] len by auto
    have "\<forall>n < length w. py_lower (s ! (j + n)) = py_lower (w ! n)"
      using word(2) len word_tok_nth [of _ s j] by (metis nth_map)
    then have "lit_at True w s j"
      using j lit_at_nth [of j s True w] by (simp add: cls_ok_def)
    with word(1) have "j + length w \<in> set (map fst (rx_match True s price_alt j))"
      unfolding price_alt_ends by blast
    then show ?thesis using price_alt_end_boundary [of "j + length w" s j] len by auto
  qed
qed

definition price_end :: "string \<Rightarrow> nat \<Rightarrow> nat" where
  "price_end s i = Suc i + length (word_tok s (Suc i))"

lemma rx_first_price_pattern:
  "rx_first True price_pattern s i =
     (if price_start s i then Some (price_end s i, Some (Suc i, price_end s i)) else None)"
proof -
  let ?G = "rx_match True s (RGroup price_alt) (Suc i)"
  let ?E = "price_end s i"
  have uniq: "\<forall>x \<in> set ?G. (\<lambda>(e, g). at_boundary s e) x \<longrightarrow> x = (?E, Some (Suc i, ?E))"
  proof (intro ballI impI)
    fix x assume x: "x \<in> set ?G" and b: "(\<lambda>(e, g). at_boundary s e) x"
    have "fst x \<in> set (map fst ?G)" using x by (simp only: set_map) (rule imageI)
    then have "fst x \<in> set (map fst (rx_match True s price_alt (Suc i)))"
      by (simp only: rx_match_group(1))
    then have "at_boundary s (fst x) \<longleftrightarrow> fst x = Suc i + length (word_tok s (Suc i))"
      by (rule price_alt_end_boundary)
    moreover have "at_boundary s (fst x)" using b by (cases x) simp
    ultimately have "fst x = ?E" by (simp add: price_end_def)
    moreover have "snd x = Some (Suc i, fst x)" using x rx_match_group(2) by blast
    ultimately show "x = (?E, Some (Suc i, ?E))" by (simp add: prod_eq_iff)
  qed
  have ex: "(\<exists>x \<in> set ?G. (\<lambda>(e, g). at_boundary s e) x) \<longleftrightarrow> price_token (word_tok s (Suc i))"
  proof -
    have "(\<exists>x \<in> set ?G. (\<lambda>(e, g). at_boundary s e) x) \<longleftrightarrow> (\<exists>e \<in> set (map fst ?G). at_boundary s e)"
      by force
    then show ?thesis by (simp only: rx_match_group(1) price_alt_exists)
  qed
  have head: "(at_boundary s i \<and> i < length s \<and> cls_ok True (CChr CHR ''S'') (s ! i)) \<longleftrightarrow>
      (i < length s \<and> (i = 0 \<or> \<not> is_word (s ! (i - 1))) \<and> py_lower (s ! i) = py_lower CHR ''S'')"
    using boundary_at_word_char py_lower_ascii_letter_word [OF S_ascii_letter]
    by (auto simp: cls_ok_def)
  have m: "rx_match True s price_pattern i =
      (if at_boundary s i \<and> i < length s \<and> cls_ok True (CChr CHR ''S'') (s ! i)
       then filter (\<lambda>(e, g). at_boundary s e) ?G else [])"
    unfolding price_pattern_def rx_match_bound_seq rx_match_cls_seq rx_match_seq_bound by simp
  have f: "(case filter (\<lambda>(e, g). at_boundary s e) ?G of [] \<Rightarrow> None | m # _ \<Rightarrow> Some m) =
      (if price_token (word_tok s (Suc i)) then Some (?E, Some (Suc i, ?E)) else None)"
    unfolding first_filter_unique [OF uniq] ex by (rule refl)
  show ?thesis
    unfolding rx_first_def m price_start_def
    using head f by (auto simp del: rx_match.simps)
qed

lemma price_pattern_nonempty:
  "rx_first True price_pattern s i = Some (e, g) \<Longrightarrow> i < e"
  by (auto simp: rx_first_price_pattern price_end_def split: if_splits)

lemma price_start_inside_token:
  assumes "price_start s i" and "Suc i \<le> j" and "j < price_end s i"
  shows "\<not> price_start s j"
proof -
  have "is_word (s ! (j - 1))"
  proof (cases "j = Suc i")
    case True
    have "py_lower (s ! i) = py_lower CHR ''S''" using assms(1) by (simp add: price_start_def)
    then show ?thesis using True py_lower_ascii_letter_word [OF S_ascii_letter] by simp
  next
    case False
    define k where "k = j - 1 - Suc i"
    have k: "k < length (word_tok s (Suc i))"
      using assms(2,3) False by (simp add: price_end_def k_def)
    have kj: "Suc i + k = j - 1" using assms(2) False by (simp add: k_def)
    have "is_word (s ! (Suc i + k))" using word_tok_nth [OF k] by blast
    then show ?thesis by (simp only: kj)
  qed
  then show ?thesis using assms(2) by (simp add: price_start_def)
qed

lemma sub_from_price:
  "i \<le> length s \<Longrightarrow>
   sub_from True price_pattern price_repl s i =
     map (\<lambda>j. if price_start s j then CHR ''$'' else s ! j) [i..<length s]"
proof (induction "length s - i" arbitrary: i rule: less_induct)
  case less
  let ?f = "\<lambda>j. if price_start s j then CHR ''$'' else s ! j"
  show ?case
  proof (cases "i < length s")
    case False
    with less.prems show ?thesis by (simp add: sub_from.simps)
  next
    case i: True
    show ?thesis
    proof (cases "price_start s i")
      case True
      let ?E = "price_end s i"
      let ?t = "word_tok s (Suc i)"
      have ne: "?t \<noteq> []"
        using True by (auto simp: price_start_def price_token_def PRICE_WORDS_def)
      then have E: "?E \<le> length s" "i < ?E"
        using word_tok_end [of "Suc i" s] by (auto simp: price_end_def)
      have IH: "sub_from True price_pattern price_repl s ?E = map ?f [?E..<length s]"
        using less.hyps [of ?E] E i by simp
      have grp: "expand price_repl s (Some (Suc i, ?E)) = CHR ''$'' # ?t"
        using word_tok_take [of s "Suc i"]
        by (simp add: expand_def price_repl_def group_text_def price_end_def)
      have mid: "map ?f [Suc i..<?E] = ?t"
      proof -
        have "map ?f [Suc i..<?E] = map (\<lambda>j. s ! j) [Suc i..<?E]"
          using price_start_inside_token [OF True] by (intro map_cong) auto
        also have "\<dots> = take (?E - Suc i) (drop (Suc i) s)"
          using E(1) by (rule map_nth_upt_take_drop)
        also have "\<dots> = ?t" using word_tok_take [of s "Suc i"] by (simp add: price_end_def)
        finally show ?thesis .
      qed
      have "sub_from True price_pattern price_repl s i =
            expand price_repl s (Some (Suc i, ?E)) @ sub_from True price_pattern price_repl s ?E"
        using i True E(2) by (simp add: sub_from.simps [of _ _ _ _ i] rx_first_price_pattern)
      also have "\<dots> = map ?f [i..<length s]"
        using upt_split3 [OF E(2) E(1)] True grp mid IH by simp
      finally show ?thesis .
    next
      case False
      have IH: "sub_from True price_pattern price_repl s (Suc i) = map ?f [Suc i..<length s]"
        using less.hyps [of "Suc i"] i by simp
      have "sub_from True price_pattern price_repl s i = s ! i # sub_from True price_pattern price_repl s (Suc i)"
        using i False by (simp add: sub_from.simps [of _ _ _ _ i] rx_first_price_pattern)
      then show ?thesis using IH False i by (simp add: upt_conv_Cons)
    qed
  qed
qed

lemma fix_spec_length [simp]: "length (fix_spec s) = length s"
  by (simp add: fix_spec_def)

lemma fix_spec_nth:
  "j < length s \<Longrightarrow> fix_spec s ! j = (if price_start s j then CHR ''$'' else s ! j)"
  by (simp add: fix_spec_def)

lemma py_lower_S_iff: "py_lower c = CHR ''s'' \<longleftrightarrow> c = CHR ''S'' \<or> c = CHR ''s''"
proof
  assume h: "py_lower c = CHR ''s''"
  have "lower_code (of_char c) = (115::nat)" using of_char_py_lower [of c] h by simp
  then have "(of_char c :: nat) = of_char CHR ''S'' \<or> (of_char c :: nat) = of_char CHR ''s''"
    by (simp add: lower_code_def split: if_splits)
  then show "c = CHR ''S'' \<or> c = CHR ''s''" by (simp only: of_char_eq_iff)
next
  assume "c = CHR ''S'' \<or> c = CHR ''s''"
  then show "py_lower c = CHR ''s''" by auto
qed

lemma price_words_hd: "list_all (\<lambda>w. w \<noteq> [] \<and> py_lower (hd w) \<noteq> CHR ''s'') PRICE_WORDS"
  by code_simp

lemma price_token_not_S:
  assumes "py_lower c = py_lower CHR ''S''"
  shows "\<not> price_token (c # r)"
proof
  assume p: "price_token (c # r)"
  have "\<not> is_digit c" using assms by (auto simp: py_lower_S_iff is_digit_def)
  then obtain w where "w \<in> set PRICE_WORDS" "map py_lower (c # r) = map py_lower w"
    using p by (auto simp: price_token_def list_ex_iff)
  moreover from this have "w \<noteq> [] \<and> py_lower (hd w) \<noteq> CHR ''s''"
    using price_words_hd by (simp add: list_all_iff)
  ultimately show False using assms by (cases w) auto
qed

lemma price_start_prev_nonword:
  "price_start s k \<Longrightarrow> 0 < k \<Longrightarrow> \<not> is_word (s ! (k - 1))"
  by (simp add: price_start_def)

lemma fix_spec_unchanged_after_word:
  "0 < k \<Longrightarrow> k < length s \<Longrightarrow> is_word (s ! (k - 1)) \<Longrightarrow> fix_spec s ! k = s ! k"
  using price_start_prev_nonword by (auto simp: fix_spec_nth)

lemma takeWhile_same_prefix:
  assumes "length ys = length xs"
    and "\<forall>k \<le> length (takeWhile P xs). k < length xs \<longrightarrow> ys ! k = xs ! k"
  shows "takeWhile P ys = takeWhile P xs"
proof -
  let ?n = "length (takeWhile P xs)"
  have n: "?n \<le> length xs" by (rule length_takeWhile_le)
  have "takeWhile P ys = take ?n ys"
  proof (rule takeWhile_eq_take_P_nth)
    fix i assume i: "i < ?n" "i < length ys"
    then have "P (takeWhile P xs ! i)" using set_takeWhileD [OF nth_mem [OF i(1)]] by simp
    moreover have "takeWhile P xs ! i = xs ! i" using i(1) by (rule takeWhile_nth)
    moreover have "ys ! i = xs ! i" using assms i n by simp
    ultimately show "P (ys ! i)" by simp
  next
    assume "?n < length ys"
    then show "\<not> P (ys ! ?n)" using assms nth_length_takeWhile [of P xs] by auto
  qed
  also have "\<dots> = take ?n xs" using assms n by (intro nth_equalityI) auto
  also have "\<dots> = takeWhile P xs" by (rule takeWhile_eq_take [symmetric])
  finally show ?thesis .
qed

lemma word_tok_fix_spec:
  assumes "j < length s" and "is_word (s ! j)"
  shows "word_tok (fix_spec s) (Suc j) = word_tok s (Suc j)"
  unfolding word_tok_def
proof (rule takeWhile_same_prefix)
  show "length (drop (Suc j) (fix_spec s)) = length (drop (Suc j) s)" by simp
  show "\<forall>k \<le> length (takeWhile is_word (drop (Suc j) s)). k < length (drop (Suc j) s) \<longrightarrow>
          drop (Suc j) (fix_spec s) ! k = drop (Suc j) s ! k"
  proof (intro allI impI)
    fix k assume k: "k \<le> length (takeWhile is_word (drop (Suc j) s))" "k < length (drop (Suc j) s)"
    have "is_word (s ! (j + k))"
    proof (cases k)
      case 0
      then show ?thesis using assms(2) by simp
    next
      case (Suc k')
      then have "k' < length (word_tok s (Suc j))" using k(1) by (simp add: word_tok_def)
      then have "is_word (s ! (Suc j + k'))" using word_tok_nth [of k' s "Suc j"] by blast
      then show ?thesis using Suc by simp
    qed
    then have "fix_spec s ! (Suc j + k) = s ! (Suc j + k)"
      using k(2) by (intro fix_spec_unchanged_after_word) auto
    then show "drop (Suc j) (fix_spec s) ! k = drop (Suc j) s ! k" using k(2) by simp
  qed
qed

lemma no_price_start_fix_spec: "\<not> price_start (fix_spec s) j"
proof
  assume ps: "price_start (fix_spec s) j"
  then have j: "j < length s" by (simp add: price_start_def)
  from ps have low: "py_lower (fix_spec s ! j) = py_lower CHR ''S''" by (simp add: price_start_def)
  have nps: "\<not> price_start s j"
  proof
    assume "price_start s j"
    then have "fix_spec s ! j = CHR ''$''" using j by (simp add: fix_spec_nth)
    with low show False by simp
  qed
  then have sj: "fix_spec s ! j = s ! j" using j by (simp add: fix_spec_nth)
  with low have lowS: "py_lower (s ! j) = py_lower CHR ''S''" by simp
  then have wj: "is_word (s ! j)" using py_lower_ascii_letter_word [OF S_ascii_letter] by blast
  have bnd: "j = 0 \<or> \<not> is_word (s ! (j - 1))"
  proof (cases "j = 0")
    case False
    then have nw: "\<not> is_word (fix_spec s ! (j - 1))" using ps by (simp add: price_start_def)
    have "\<not> price_start s (j - 1)"
    proof
      assume p: "price_start s (j - 1)"
      have "drop j s = s ! j # drop (Suc j) s" using j by (rule Cons_nth_drop_Suc [symmetric])
      then have "word_tok s j = s ! j # word_tok s (Suc j)" using wj by (simp add: word_tok_def)
      then show False using p False lowS price_token_not_S by (simp add: price_start_def)
    qed
    then show ?thesis using nw j by (simp add: fix_spec_nth)
  qed simp
  have "price_token (word_tok s (Suc j))"
    using ps word_tok_fix_spec [OF j wj] by (simp add: price_start_def)
  with j bnd lowS nps show False by (simp add: price_start_def)
qed

subsection \<open>Properties of \<open>fix_price_words\<close>\<close>

text \<open>
  C1: \<open>fix_price_words\<close> (the regular-expression substitution of the source) is the
  token-level rewrite: a character of the text becomes \<open>$\<close> exactly when it is an
  \<open>S\<close> or \<open>s\<close> that starts a word token and the rest of that token is a non-empty
  run of digits or, ignoring case, one of the price words; every other character is
  kept.
\<close>

theorem fix_price_words_spec: "fix_price_words text = fix_spec text"
  by (simp add: fix_price_words_def re_sub_def sub_from_price fix_spec_def)

lemma fix_price_words_eq: "fix_price_words text = fix_spec text"
  by (simp add: fix_price_words_def re_sub_def sub_from_price fix_spec_def)

lemma map_py_isspace_fix: "map py_isspace (fix_price_words t) = map py_isspace t"
proof (rule nth_equalityI)
  show "length (map py_isspace (fix_price_words t)) = length (map py_isspace t)"
    by (simp add: fix_price_words_eq)
  fix j assume "j < length (map py_isspace (fix_price_words t))"
  then have j: "j < length t" by (simp add: fix_price_words_eq)
  show "map py_isspace (fix_price_words t) ! j = map py_isspace t ! j"
  proof (cases "price_start t j")
    case True
    then have "t ! j = CHR ''S'' \<or> t ! j = CHR ''s''" by (simp add: price_start_def py_lower_S_iff)
    then show ?thesis using j True by (auto simp: fix_price_words_eq fix_spec_nth py_isspace_def)
  next
    case False
    then show ?thesis using j by (simp add: fix_price_words_eq fix_spec_nth)
  qed
qed

lemma list_all_py_isspace_fix: "list_all py_isspace (fix_price_words t) \<longleftrightarrow> list_all py_isspace t"
proof -
  have h: "\<And>xs. list_all py_isspace xs = list_all (\<lambda>b. b) (map py_isspace xs)"
    by (induct_tac xs) auto
  show ?thesis by (simp only: h map_py_isspace_fix)
qed

text \<open>Cleaning commutes with \<open>str.strip\<close>: a price match never touches whitespace and
  whitespace is no word character, so leading and trailing blanks change no match.\<close>

lemma space_not_S: "py_isspace c \<Longrightarrow> py_lower c \<noteq> py_lower CHR ''S''"
proof
  assume "py_isspace c" and "py_lower c = py_lower CHR ''S''"
  then have "c = CHR ''S'' \<or> c = CHR ''s''" by (simp add: py_lower_S_iff)
  with \<open>py_isspace c\<close> show False by (auto simp: py_isspace_def)
qed

lemma price_start_space_prefix:
  assumes "list_all py_isspace a"
  shows "price_start (a @ m) (length a + j) = price_start m j"
proof -
  have prev: "(length a + j = 0 \<or> \<not> is_word ((a @ m) ! (length a + j - 1))) \<longleftrightarrow> (j = 0 \<or> \<not> is_word (m ! (j - 1)))"
  proof (cases j)
    case 0
    then show ?thesis using assms py_isspace_not_word
      by (cases a rule: rev_cases) (auto simp: nth_append list_all_iff)
  next
    case (Suc k)
    then show ?thesis by (simp add: nth_append)
  qed
  have "word_tok (a @ m) (Suc (length a + j)) = word_tok m (Suc j)"
    by (simp add: word_tok_def)
  with prev show ?thesis by (simp add: price_start_def nth_append)
qed

lemma fix_spec_space_prefix: "list_all py_isspace a \<Longrightarrow> fix_spec (a @ m) = a @ fix_spec m"
proof (rule nth_equalityI)
  assume a: "list_all py_isspace a"
  show "length (fix_spec (a @ m)) = length (a @ fix_spec m)" by simp
  fix i assume "i < length (fix_spec (a @ m))"
  then have i: "i < length a + length m" by simp
  show "fix_spec (a @ m) ! i = (a @ fix_spec m) ! i"
  proof (cases "i < length a")
    case True
    then have "\<not> price_start (a @ m) i"
      using a space_not_S by (auto simp: price_start_def nth_append list_all_iff)
    with True i show ?thesis by (simp add: fix_spec_nth nth_append)
  next
    case False
    then obtain j where j: "i = length a + j" by (metis le_add_diff_inverse not_less)
    with i show ?thesis
      using price_start_space_prefix [OF a, of m j] by (simp add: fix_spec_nth nth_append)
  qed
qed

lemma takeWhile_append_stop: "b = [] \<or> \<not> P (hd b) \<Longrightarrow> takeWhile P (x @ b) = takeWhile P x"
proof (induction x)
  case Nil
  then show ?case by (cases b) auto
qed simp

lemma price_start_space_suffix:
  assumes "list_all py_isspace b" and "i < length m"
  shows "price_start (m @ b) i = price_start m i"
proof -
  have "b = [] \<or> \<not> is_word (hd b)"
    using assms(1) py_isspace_not_word by (cases b) auto
  then have "word_tok (m @ b) (Suc i) = word_tok m (Suc i)"
    using assms(2) takeWhile_append_stop [of b is_word "drop (Suc i) m"] by (simp add: word_tok_def)
  moreover have "i - 1 < length m" using assms(2) by simp
  ultimately show ?thesis using assms(2) by (simp add: price_start_def nth_append)
qed

lemma fix_spec_space_suffix: "list_all py_isspace b \<Longrightarrow> fix_spec (m @ b) = fix_spec m @ b"
proof (rule nth_equalityI)
  assume b: "list_all py_isspace b"
  show "length (fix_spec (m @ b)) = length (fix_spec m @ b)" by simp
  fix i assume "i < length (fix_spec (m @ b))"
  then have i: "i < length m + length b" by simp
  show "fix_spec (m @ b) ! i = (fix_spec m @ b) ! i"
  proof (cases "i < length m")
    case True
    then show ?thesis using price_start_space_suffix [OF b True] by (simp add: fix_spec_nth nth_append)
  next
    case False
    then have "py_isspace ((m @ b) ! i)" using b i by (simp add: nth_append list_all_iff)
    then have "\<not> price_start (m @ b) i" using space_not_S by (auto simp: price_start_def)
    with False i show ?thesis by (simp add: fix_spec_nth nth_append)
  qed
qed

lemma clean_ocr_text_strip: "clean_ocr_text (py_strip t) = py_strip (clean_ocr_text t)"
proof -
  obtain a b where t: "t = a @ py_strip t @ b" and a: "list_all py_isspace a" and b: "list_all py_isspace b"
    and e: "py_strip t = [] \<or> \<not> py_isspace (hd (py_strip t)) \<and> \<not> py_isspace (last (py_strip t))"
    by (rule py_strip_decomp)
  let ?m = "py_strip t"
  have sp: "map py_isspace (fix_spec ?m) = map py_isspace ?m"
    using map_py_isspace_fix [of ?m] by (simp add: fix_price_words_eq)
  have "fix_spec ?m = [] \<or> \<not> py_isspace (hd (fix_spec ?m)) \<and> \<not> py_isspace (last (fix_spec ?m))"
  proof (cases "?m = []")
    case False
    then have "fix_spec ?m \<noteq> []" by (metis fix_spec_length length_0_conv)
    with sp e False show ?thesis by (metis hd_map last_map list.map_disc_iff)
  qed (simp add: fix_spec_def)
  then have "py_strip (a @ fix_spec ?m @ b) = fix_spec ?m" by (rule py_strip_frame [OF a b])
  moreover have "fix_spec t = a @ fix_spec ?m @ b"
    using t fix_spec_space_prefix [OF a] fix_spec_space_suffix [OF b] by metis
  ultimately show ?thesis by (simp add: clean_ocr_text_def fix_price_words_eq)
qed

theorem fix_price_words_spec_witness: "fix_price_words ''Total: S10'' = fix_spec ''Total: S10''"
  using fix_price_words_spec [of "''Total: S10''"] by simp

text \<open>
  C8: the cleanup is idempotent: a second pass over corrected text changes nothing,
  since every corrected \<open>$\<close> is no \<open>S\<close> and no word character.
\<close>

theorem fix_price_words_idem: "fix_price_words (fix_price_words text) = fix_price_words text"
proof -
  have "fix_spec (fix_spec text) = map (\<lambda>j. fix_spec text ! j) [0..<length (fix_spec text)]"
    using no_price_start_fix_spec by (simp add: fix_spec_def [of "fix_spec text"])
  also have "\<dots> = fix_spec text" by (simp add: map_nth_upt_take_drop)
  finally show ?thesis by (simp add: fix_price_words_eq)
qed

text \<open>
  C9: the cleanup keeps the length of the text, and the only change it makes is an
  \<open>S\<close> or \<open>s\<close> turned into \<open>$\<close>.
\<close>

theorem fix_price_words_changes:
  "length (fix_price_words text) = length text \<and>
   (\<forall>j < length text. fix_price_words text ! j \<noteq> text ! j \<longrightarrow>
      (text ! j = CHR ''S'' \<or> text ! j = CHR ''s'') \<and> fix_price_words text ! j = CHR ''$'')"
  by (auto simp: fix_price_words_eq fix_spec_nth price_start_def py_lower_S_iff)

theorem fix_price_words_changes_witness:
  "fix_price_words ''S1'' ! 0 \<noteq> ''S1'' ! 0 \<and> fix_price_words ''S1'' ! 0 = CHR ''$''"
proof -
  have f: "fix_price_words ''S1'' = ''$1''" by code_simp
  then have "fix_price_words ''S1'' ! 0 \<noteq> ''S1'' ! 0" by simp
  with fix_price_words_changes [of "''S1''"] show ?thesis by auto
qed


end
