(* ===== verification/Files.thy ===== *)
theory Files
  imports Prelude
begin

text \<open>
  The file system as the pipeline sees it: the directories that exist and the contents
  of the files, keyed by the normalised path (\<open>os.path.normpath\<close>, so that
  \<open>./example_pdfs/m.pdf\<close> and \<open>example_pdfs/../example_pdfs/m.pdf\<close> name the
  same file; symbolic links are not modelled). Reading a missing file and writing into
  a missing directory raise \<open>OSError\<close>, as \<open>open\<close> does. The path functions are the
  POSIX ones of the standard library that \<open>src/menu_api.py\<close> calls:
  \<open>os.path.join\<close>, \<open>os.path.normpath\<close>, \<open>os.path.dirname\<close>.
\<close>

subsection \<open>Paths\<close>

text \<open>\<open>str.split(sep)\<close>: the pieces between separators, empty ones included.\<close>

fun split_on :: "char \<Rightarrow> string \<Rightarrow> string list" where
  "split_on c [] = [[]]"
| "split_on c (x # xs) =
     (let r = split_on c xs in if x = c then [] # r else (x # hd r) # tl r)"

lemma split_on_nonempty: "split_on c s \<noteq> []"
  by (induction s) (auto simp: Let_def)

text \<open>\<open>posixpath.join(a, b)\<close>: an absolute \<open>b\<close> replaces \<open>a\<close>.\<close>

definition os_path_join :: "path \<Rightarrow> path \<Rightarrow> path" where
  "os_path_join a b =
     (if take 1 b = ''/'' then b
      else if a = [] \<or> last a = CHR ''/'' then a @ b
      else a @ ''/'' @ b)"

text \<open>The component loop of \<open>posixpath.normpath\<close>; \<open>acc\<close> is \<open>new_comps\<close> reversed.\<close>

fun norm_comps :: "bool \<Rightarrow> string list \<Rightarrow> string list \<Rightarrow> string list" where
  "norm_comps ab acc [] = rev acc"
| "norm_comps ab acc (c # cs) =
     (if c = [] \<or> c = ''.'' then norm_comps ab acc cs
      else if c \<noteq> ''..'' \<or> (\<not> ab \<and> acc = []) \<or> (acc \<noteq> [] \<and> hd acc = ''..'')
      then norm_comps ab (c # acc) cs
      else norm_comps ab (tl acc) cs)"

definition initial_slashes :: "path \<Rightarrow> nat" where
  "initial_slashes p =
     (if take 1 p = ''/'' then (if take 2 p = ''//'' \<and> take 3 p \<noteq> ''///'' then 2 else 1) else 0)"

definition normpath :: "path \<Rightarrow> path" where
  "normpath p =
     (if p = [] then ''.''
      else let k = initial_slashes p;
               r = replicate k CHR ''/'' @ py_join ''/'' (norm_comps (0 < k) [] (split_on CHR ''/'' p))
           in if r = [] then ''.'' else r)"

text \<open>\<open>posixpath.dirname\<close>: everything up to the last slash, trailing slashes removed
  unless the head is all slashes.\<close>

definition dirname :: "path \<Rightarrow> path" where
  "dirname p =
     (let head = rev (dropWhile (\<lambda>c. c \<noteq> CHR ''/'') (rev p)) in
      if head \<noteq> [] \<and> head \<noteq> replicate (length head) CHR ''/''
      then rev (dropWhile (\<lambda>c. c = CHR ''/'') (rev head)) else head)"

text \<open>The directory a file with the normalised path \<open>k\<close> lives in.\<close>

definition key_parent :: "path \<Rightarrow> path" where
  "key_parent k = (let d = dirname k in if d = [] then ''.'' else d)"

subsection \<open>\<open>pathlib.PurePosixPath\<close>\<close>

text \<open>
  A path object is its root (\<open>''\<close>, \<open>/\<close> or \<open>//\<close>, as \<open>splitroot\<close> finds it) and
  its parts, the pieces between slashes other than empty ones and \<open>.\<close>; \<open>str\<close> of
  a path with neither is \<open>.\<close>. \<open>name\<close> is the last part, \<open>suffix\<close> the part of
  the name from its last dot, unless that dot starts or ends the name.
\<close>

definition path_root :: "path \<Rightarrow> string" where
  "path_root p =
     (if take 1 p \<noteq> ''/'' then []
      else if take 2 p \<noteq> ''//'' \<or> take 3 p = ''///'' then ''/'' else ''//'')"

definition path_parts :: "path \<Rightarrow> string list" where
  "path_parts p = filter (\<lambda>x. x \<noteq> [] \<and> x \<noteq> ''.'') (split_on CHR ''/'' p)"

definition path_str :: "string \<Rightarrow> string list \<Rightarrow> path" where
  "path_str root parts = (let r = root @ py_join ''/'' parts in if r = [] then ''.'' else r)"

definition name_suffix :: "string \<Rightarrow> string" where
  "name_suffix name =
     (if CHR ''.'' \<notin> set name then []
      else let i = length name - Suc (length (takeWhile (\<lambda>c. c \<noteq> CHR ''.'') (rev name))) in
           if 0 < i \<and> i < length name - 1 then drop i name else [])"

text \<open>\<open>PurePath.with_suffix(suffix)\<close>, returning \<open>str\<close> of the new path; its
  \<open>ValueError\<close> carries the refused argument (an invalid suffix, or a path without a name).\<close>

definition with_suffix :: "path \<Rightarrow> string \<Rightarrow> pyexc + path" where
  "with_suffix p suf =
     (if CHR ''/'' \<in> set suf \<or> (suf \<noteq> [] \<and> take 1 suf \<noteq> ''.'') \<or> suf = ''.''
      then Inl (ValueError suf)
      else let parts = path_parts p in
        if parts = [] then Inl (ValueError p)
        else let name = last parts; old = name_suffix name in
          Inr (path_str (path_root p) (butlast parts @ [take (length name - length old) name @ suf])))"

subsection \<open>The file system\<close>

record fs =
  fs_files :: "path \<rightharpoonup> string"
  fs_dirs :: "path set"

definition fs_read :: "fs \<Rightarrow> path \<Rightarrow> pyexc + string" where
  "fs_read s p = (case fs_files s (normpath p) of None \<Rightarrow> Inl (OSError p) | Some c \<Rightarrow> Inr c)"

definition fs_write :: "fs \<Rightarrow> path \<Rightarrow> string \<Rightarrow> pyexc + fs" where
  "fs_write s p c =
     (if key_parent (normpath p) \<in> fs_dirs s \<and> normpath p \<notin> fs_dirs s
      then Inr (s\<lparr>fs_files := (fs_files s)(normpath p \<mapsto> c)\<rparr>)
      else Inl (OSError p))"

text \<open>\<open>os.path.exists\<close>: a file or a directory.\<close>

definition os_path_exists :: "fs \<Rightarrow> path \<Rightarrow> bool" where
  "os_path_exists s p \<longleftrightarrow> normpath p \<in> dom (fs_files s) \<or> normpath p \<in> fs_dirs s"

text \<open>
  A file system is well formed when no path is both a file and a directory and every
  file lies in an existing directory.
\<close>

definition fs_wf :: "fs \<Rightarrow> bool" where
  "fs_wf s \<longleftrightarrow> (\<forall>p \<in> dom (fs_files s). p \<notin> fs_dirs s \<and> key_parent p \<in> fs_dirs s)"

lemma split_on_no_sep: "c \<notin> set s \<Longrightarrow> split_on c s = [s]"
  by (induction s) auto

lemma split_on_append_sep: "c \<notin> set x \<Longrightarrow> split_on c (x @ c # r) = x # split_on c r"
  by (induction x) auto

lemma split_on_py_join:
  "xs \<noteq> [] \<Longrightarrow> \<forall>x \<in> set xs. c \<notin> set x \<Longrightarrow> split_on c (py_join [c] xs) = xs"
proof (induction xs)
  case (Cons x xs)
  then show ?case by (cases xs) (auto simp: split_on_no_sep split_on_append_sep)
qed simp

lemma with_suffix_simple:
  assumes "CHR ''/'' \<notin> set stem" and "stem \<noteq> []"
  shows "with_suffix (stem @ ''.pdf'') ''.json'' = Inr (stem @ ''.json'')"
proof -
  have parts: "path_parts (stem @ ''.pdf'') = [stem @ ''.pdf'']"
    using assms by (auto simp: path_parts_def split_on_no_sep)
  have root: "path_root (stem @ ''.pdf'') = []"
    using assms by (cases stem) (auto simp: path_root_def)
  have "takeWhile (\<lambda>c. c \<noteq> CHR ''.'') (rev (stem @ ''.pdf'')) = ''fdp''" by simp
  then have "name_suffix (stem @ ''.pdf'') = ''.pdf''"
    using assms(2) by (simp add: name_suffix_def Let_def)
  then show ?thesis
    using parts root by (simp add: with_suffix_def path_str_def)
qed

lemma fs_read_write_same:
  "fs_write s p c = Inr s' \<Longrightarrow> fs_read s' p = Inr c"
  by (auto simp: fs_write_def fs_read_def split: if_splits)

lemma fs_read_write_other:
  "fs_write s p c = Inr s' \<Longrightarrow> normpath q \<noteq> normpath p \<Longrightarrow> fs_read s' q = fs_read s q"
  by (auto simp: fs_write_def fs_read_def split: if_splits)

lemma fs_write_dirs: "fs_write s p c = Inr s' \<Longrightarrow> fs_dirs s' = fs_dirs s"
  by (auto simp: fs_write_def split: if_splits)

lemma fs_write_wf: "fs_wf s \<Longrightarrow> fs_write s p c = Inr s' \<Longrightarrow> fs_wf s'"
  by (auto simp: fs_wf_def fs_write_def split: if_splits)

end
