(* ===== verification/Extract.thy ===== *)
theory Extract
  imports PriceFix Files
begin

text \<open>
  The text extractor of \<open>src/pdf_to_text.py\<close>: \<open>extract_text_hybrid\<close> reads the
  text layer of every page with pdfplumber and, only when no page has any text, falls
  back to rasterising the document (pdf2image, 300 dpi) and running tesseract on each
  page image, cleaning each OCR result with \<open>clean_ocr_text\<close>. The kept pages are
  rendered as \<open>Page n: text\<close> lines joined by newlines.

  The libraries are a record of functions, the \<open>backend\<close>: what pdfplumber reports
  for each page of a file's bytes (\<open>None\<close> where \<open>page.extract_text()\<close> returns
  \<open>None\<close>), the page images pdf2image produces at a resolution, and the text tesseract
  reads from an image. Each may raise. The file itself is read from the file system of
  \<open>Files\<close>.
\<close>

record 'img backend =
  plumber_pages :: "string \<Rightarrow> pyexc + string option list"
  convert_pages :: "string \<Rightarrow> nat \<Rightarrow> pyexc + 'img list"
  image_to_string :: "'img \<Rightarrow> pyexc + string"

type_synonym page_text = "nat \<times> string"

definition DEFAULT_DPI :: nat where
  "DEFAULT_DPI = 300"

text \<open>The loop of \<open>extract_text_from_image_pdf\<close>, pages numbered from \<open>n\<close>.\<close>

fun ocr_pages :: "'img backend \<Rightarrow> nat \<Rightarrow> 'img list \<Rightarrow> pyexc + page_text list" where
  "ocr_pages be n [] = Inr []"
| "ocr_pages be n (img # imgs) =
     res_bind (image_to_string be img) (\<lambda>text.
     res_bind (ocr_pages be (Suc n) imgs) (\<lambda>rest.
       Inr (if py_strip text \<noteq> [] then (n, py_strip (clean_ocr_text text)) # rest else rest)))"

definition extract_text_from_image_pdf :: "'img backend \<Rightarrow> fs \<Rightarrow> path \<Rightarrow> nat \<Rightarrow> pyexc + page_text list" where
  "extract_text_from_image_pdf be s pdf_path dpi =
     res_bind (fs_read s pdf_path) (\<lambda>data.
     res_bind (convert_pages be data dpi) (\<lambda>images. ocr_pages be 1 images))"

text \<open>The pdfplumber loop of \<open>extract_text_hybrid\<close>: \<open>text.strip()\<close> on \<open>None\<close> raises.\<close>

fun native_pages :: "nat \<Rightarrow> string option list \<Rightarrow> pyexc + page_text list" where
  "native_pages n [] = Inr []"
| "native_pages n (None # ps) = Inl NoneStrip"
| "native_pages n (Some text # ps) =
     res_bind (native_pages (Suc n) ps) (\<lambda>rest.
       Inr (if py_strip text \<noteq> [] then (n, py_strip text) # rest else rest))"

definition page_line :: "page_text \<Rightarrow> string" where
  "page_line p = ''Page '' @ str_nat (fst p) @ '': '' @ snd p"

definition join_pages :: "page_text list \<Rightarrow> string" where
  "join_pages ps = py_join [CHR 0x0A] (map page_line ps)"

definition extract_text_hybrid :: "'img backend \<Rightarrow> fs \<Rightarrow> path \<Rightarrow> pyexc + string" where
  "extract_text_hybrid be s pdf_path =
     res_bind (fs_read s pdf_path) (\<lambda>data.
     res_bind (plumber_pages be data) (\<lambda>pages.
     res_bind (native_pages 1 pages) (\<lambda>extracted.
     res_bind (if extracted = [] then extract_text_from_image_pdf be s pdf_path DEFAULT_DPI
               else Inr extracted) (\<lambda>extracted.
     Inr (join_pages extracted)))))"

subsection \<open>The kept pages\<close>

text \<open>
  The pages a loop keeps, as a filter over the numbered page texts: each page whose
  stripped text is not empty, with that stripped text.
\<close>

definition nonblank_pages :: "nat \<Rightarrow> string list \<Rightarrow> page_text list" where
  "nonblank_pages n ts =
     filter (\<lambda>p. snd p \<noteq> []) (map (\<lambda>(k, t). (k, py_strip t)) (zip [n..<n + length ts] ts))"

lemma nonblank_pages_Nil [simp]: "nonblank_pages n [] = []"
  by (simp add: nonblank_pages_def)

lemma nonblank_pages_Cons:
  "nonblank_pages n (t # ts) =
     (if py_strip t \<noteq> [] then (n, py_strip t) # nonblank_pages (Suc n) ts else nonblank_pages (Suc n) ts)"
proof -
  have "[n..<n + length (t # ts)] = n # [Suc n..<Suc n + length ts]"
    by (simp del: upt_Suc add: upt_conv_Cons)
  then show ?thesis by (simp add: nonblank_pages_def)
qed

lemma nonblank_pages_empty_iff:
  "nonblank_pages n ts = [] \<longleftrightarrow> list_all (\<lambda>t. py_strip t = []) ts"
  by (induction ts arbitrary: n) (simp_all add: nonblank_pages_Cons)

lemma native_pages_Some: "native_pages n (map Some ts) = Inr (nonblank_pages n ts)"
  by (induction ts arbitrary: n) (simp_all add: nonblank_pages_Cons)

lemma native_pages_None: "None \<in> set ps \<Longrightarrow> native_pages n ps = Inl NoneStrip"
proof (induction ps arbitrary: n)
  case Nil
  then show ?case by simp
next
  case (Cons p ps)
  then show ?case by (cases p) auto
qed

lemma native_pages_cases:
  "native_pages n ps = (if None \<in> set ps then Inl NoneStrip else Inr (nonblank_pages n (map the ps)))"
proof (cases "None \<in> set ps")
  case True
  then show ?thesis by (simp add: native_pages_None)
next
  case False
  then have "ps = map Some (map the ps)" by (induction ps) auto
  then have "native_pages n ps = Inr (nonblank_pages n (map the ps))"
    by (metis native_pages_Some)
  with False show ?thesis by simp
qed

lemma strip_clean_empty: "py_strip (clean_ocr_text t) = [] \<longleftrightarrow> py_strip t = []"
  by (simp add: clean_ocr_text_def py_strip_empty_iff list_all_py_isspace_fix)

lemma ocr_pages_Inr:
  "map (image_to_string be) imgs = map Inr ts \<Longrightarrow>
   ocr_pages be n imgs = Inr (nonblank_pages n (map clean_ocr_text ts))"
proof (induction imgs arbitrary: n ts)
  case Nil
  then show ?case by simp
next
  case (Cons img imgs)
  then obtain t ts' where ts: "ts = t # ts'" and t: "image_to_string be img = Inr t"
    and rest: "map (image_to_string be) imgs = map Inr ts'"
    by (cases ts) auto
  show ?case using Cons.IH [OF rest] t ts by (simp add: nonblank_pages_Cons strip_clean_empty)
qed

lemma ocr_pages_Inl:
  "k < length imgs \<Longrightarrow> image_to_string be (imgs ! k) = Inl e \<Longrightarrow>
   (\<forall>j < k. \<exists>t. image_to_string be (imgs ! j) = Inr t) \<Longrightarrow> ocr_pages be n imgs = Inl e"
proof (induction imgs arbitrary: n k)
  case Nil
  then show ?case by simp
next
  case (Cons img imgs)
  show ?case
  proof (cases k)
    case 0
    with Cons.prems show ?thesis by simp
  next
    case (Suc k')
    from Cons.prems Suc obtain t where "image_to_string be img = Inr t" by fastforce
    moreover have "ocr_pages be (Suc n) imgs = Inl e"
      using Cons.prems Suc by (intro Cons.IH [of k']) auto
    ultimately show ?thesis by simp
  qed
qed

definition pages_ok :: "nat \<Rightarrow> nat \<Rightarrow> page_text list \<Rightarrow> bool" where
  "pages_ok n len r \<longleftrightarrow>
     sorted_wrt (\<lambda>a b. fst a < fst b) r \<and>
     list_all (\<lambda>(k, t). n \<le> k \<and> k < n + len \<and> t \<noteq> [] \<and> py_strip t = t) r"

lemma nonblank_pages_ok: "pages_ok n (length ts) (nonblank_pages n ts)"
proof (induction ts arbitrary: n)
  case Nil
  then show ?case by (simp add: pages_ok_def)
next
  case (Cons t ts)
  have IH: "pages_ok (Suc n) (length ts) (nonblank_pages (Suc n) ts)" by (rule Cons.IH)
  then have "\<forall>q \<in> set (nonblank_pages (Suc n) ts). Suc n \<le> fst q"
    by (auto simp: pages_ok_def list_all_iff)
  then show ?case using IH
    by (auto simp: pages_ok_def nonblank_pages_Cons py_strip_idem list_all_iff)
qed

lemma ocr_pages_texts:
  "ocr_pages be n imgs = Inr r \<Longrightarrow> \<exists>ts. map (image_to_string be) imgs = map Inr ts"
proof (induction imgs arbitrary: n r)
  case Nil
  then show ?case by simp
next
  case (Cons img imgs)
  then obtain t r' where "image_to_string be img = Inr t" "ocr_pages be (Suc n) imgs = Inr r'"
    by (auto simp: res_bind_eq_Inr)
  with Cons.IH obtain ts where "map (image_to_string be) imgs = map Inr ts" by blast
  with \<open>image_to_string be img = Inr t\<close> show ?case by (intro exI [of _ "t # ts"]) simp
qed

lemma extract_hybrid_eq:
  assumes "fs_read s p = Inr data" and "plumber_pages be data = Inr (map Some texts)"
  shows "extract_text_hybrid be s p =
           (if list_all (\<lambda>t. py_strip t = []) texts
            then res_bind (convert_pages be data DEFAULT_DPI) (\<lambda>images.
                 res_bind (ocr_pages be 1 images) (\<lambda>e. Inr (join_pages e)))
            else Inr (join_pages (nonblank_pages 1 texts)))"
  using assms nonblank_pages_empty_iff [of 1 texts]
  by (simp add: extract_text_hybrid_def extract_text_from_image_pdf_def native_pages_Some)

lemma extract_hybrid_ocr_eq:
  assumes "fs_read s p = Inr data" and "plumber_pages be data = Inr (map Some texts)"
    and "list_all (\<lambda>t. py_strip t = []) texts"
    and "convert_pages be data DEFAULT_DPI = Inr imgs" and "map (image_to_string be) imgs = map Inr ocr"
  shows "extract_text_hybrid be s p = Inr (join_pages (nonblank_pages 1 (map clean_ocr_text ocr)))"
  using extract_hybrid_eq [OF assms(1,2)] assms(3-5) ocr_pages_Inr [OF assms(5)] by simp

subsection \<open>Sample documents\<close>

text \<open>
  Concrete inputs for the witnesses: the upload folder holding one file, a backend for
  a PDF with a text layer on its first page only, and one for a scanned PDF whose
  first page reads \<open>Total: S10\<close>.
\<close>

definition sample_fs :: fs where
  "sample_fs = \<lparr>fs_files = [''example_pdfs/menu.pdf'' \<mapsto> ''%PDF-1.4''],
                 fs_dirs = {''.'', ''example_pdfs'', ''output_jsons''}\<rparr>"

definition text_backend :: "unit backend" where
  "text_backend = \<lparr>plumber_pages = (\<lambda>d. Inr [Some ''Sierra Nevada Pale Ale S13'', Some ''  '']),
                    convert_pages = (\<lambda>d n. Inr [(), ()]),
                    image_to_string = (\<lambda>i. Inr ''unused'')\<rparr>"

definition scan_backend :: "nat backend" where
  "scan_backend = \<lparr>plumber_pages = (\<lambda>d. Inr [Some [], Some '' '']),
                    convert_pages = (\<lambda>d n. Inr [1, 2]),
                    image_to_string = (\<lambda>i. Inr (if i = 1 then ''Total: S10 '' else '' ''))\<rparr>"

lemma sample_fs_read: "fs_read sample_fs ''./example_pdfs/menu.pdf'' = Inr ''%PDF-1.4''"
  by (simp add: sample_fs_def fs_read_def normpath_def initial_slashes_def)

subsection \<open>Properties of the extractor\<close>

text \<open>
  C2: the fallback policy is per document: when pdfplumber reads every page and one
  page has any text, the result is the kept text-layer pages, uncleaned, whatever the
  rasteriser and the OCR engine would do (replacing them changes nothing), so OCR is
  never attempted, not even for the blank pages.
\<close>

theorem extract_hybrid_native_no_ocr:
  assumes "fs_read s p = Inr data" and "plumber_pages be data = Inr (map Some texts)"
    and "list_ex (\<lambda>t. py_strip t \<noteq> []) texts"
  shows "extract_text_hybrid (be\<lparr>convert_pages := cv, image_to_string := ocr\<rparr>) s p =
           Inr (join_pages (nonblank_pages 1 texts))"
proof -
  have "\<not> list_all (\<lambda>t. py_strip t = []) texts" using assms(3) by (simp add: list_ex_iff list_all_iff)
  then show ?thesis using extract_hybrid_eq [of s p data "be\<lparr>convert_pages := cv, image_to_string := ocr\<rparr>"] assms(1,2)
    by simp
qed

theorem extract_hybrid_native_no_ocr_witness:
  "extract_text_hybrid (text_backend\<lparr>convert_pages := (\<lambda>d n. Inl (ConvertError ''poppler'')),
                                     image_to_string := (\<lambda>i. Inl (TesseractError ''tesseract''))\<rparr>)
     sample_fs ''./example_pdfs/menu.pdf'' =
   Inr (join_pages (nonblank_pages 1 [''Sierra Nevada Pale Ale S13'', ''  '']))"
proof -
  have "plumber_pages text_backend ''%PDF-1.4'' = Inr (map Some [''Sierra Nevada Pale Ale S13'', ''  ''])"
    by (simp add: text_backend_def)
  moreover have "list_ex (\<lambda>t. py_strip t \<noteq> []) [''Sierra Nevada Pale Ale S13'', ''  '']"
    by (simp add: py_strip_def py_isspace_def)
  ultimately show ?thesis using extract_hybrid_native_no_ocr [OF sample_fs_read] by blast
qed

text \<open>
  C3: when no page has a text layer, the result is the OCR output of the pages whose
  recognised text is not blank, numbered by their position in the document, each
  cleaned by \<open>clean_ocr_text\<close> and stripped.
\<close>

theorem extract_hybrid_ocr_fallback:
  assumes "fs_read s p = Inr data" and "plumber_pages be data = Inr (map Some texts)"
    and "list_all (\<lambda>t. py_strip t = []) texts"
    and "convert_pages be data DEFAULT_DPI = Inr imgs" and "map (image_to_string be) imgs = map Inr ocr"
  shows "extract_text_hybrid be s p = Inr (join_pages (nonblank_pages 1 (map clean_ocr_text ocr)))"
  using extract_hybrid_eq [OF assms(1,2)] assms(3-5) ocr_pages_Inr [OF assms(5)] by simp

theorem extract_hybrid_ocr_fallback_witness:
  "extract_text_hybrid scan_backend sample_fs ''./example_pdfs/menu.pdf'' =
   Inr (join_pages (nonblank_pages 1 (map clean_ocr_text [''Total: S10 '', '' ''])))"
proof -
  have "plumber_pages scan_backend ''%PDF-1.4'' = Inr (map Some [[], '' ''])"
    by (simp add: scan_backend_def)
  moreover have "list_all (\<lambda>t. py_strip t = []) [[], '' '']"
    by (simp add: py_strip_def py_isspace_def)
  moreover have "convert_pages scan_backend ''%PDF-1.4'' DEFAULT_DPI = Inr [1, 2]"
    by (simp add: scan_backend_def)
  moreover have "map (image_to_string scan_backend) [1, 2] = map Inr [''Total: S10 '', '' '']"
    by (simp add: scan_backend_def)
  ultimately show ?thesis using extract_hybrid_ocr_fallback [OF sample_fs_read] by blast
qed

text \<open>
  C11: a document with no text anywhere, neither in its text layer nor in its OCR
  output, yields the empty string rather than an error: the code has no
  \<open>NoExtractableText\<close> failure.
\<close>

theorem extract_hybrid_blank_document:
  assumes "fs_read s p = Inr data" and "plumber_pages be data = Inr (map Some texts)"
    and "list_all (\<lambda>t. py_strip t = []) texts"
    and "convert_pages be data DEFAULT_DPI = Inr imgs" and "map (image_to_string be) imgs = map Inr ocr"
    and "list_all (\<lambda>t. py_strip t = []) ocr"
  shows "extract_text_hybrid be s p = Inr []"
proof -
  have "list_all (\<lambda>t. py_strip t = []) (map clean_ocr_text ocr)"
    using assms(6) by (simp add: list.pred_map comp_def clean_ocr_text_def py_strip_empty_iff list_all_py_isspace_fix)
  then have "nonblank_pages 1 (map clean_ocr_text ocr) = []" by (simp add: nonblank_pages_empty_iff)
  then show ?thesis using extract_hybrid_ocr_eq [OF assms(1-5)] by (simp add: join_pages_def)
qed

theorem extract_hybrid_blank_document_witness:
  "extract_text_hybrid (scan_backend\<lparr>image_to_string := (\<lambda>i. Inr '' '')\<rparr>) sample_fs ''./example_pdfs/menu.pdf'' = Inr []"
proof -
  let ?be = "scan_backend\<lparr>image_to_string := (\<lambda>i. Inr '' '')\<rparr>"
  have "plumber_pages ?be ''%PDF-1.4'' = Inr (map Some [[], '' ''])"
    by (simp add: scan_backend_def)
  moreover have "list_all (\<lambda>t. py_strip t = []) [[], '' '']"
    by (simp add: py_strip_def py_isspace_def)
  moreover have "convert_pages ?be ''%PDF-1.4'' DEFAULT_DPI = Inr [1, 2]"
    by (simp add: scan_backend_def)
  moreover have "map (image_to_string ?be) [1, 2] = map Inr ['' '', '' '']"
    by simp
  moreover have "list_all (\<lambda>t. py_strip t = []) ['' '', '' '']"
    by (simp add: py_strip_def py_isspace_def)
  ultimately show ?thesis using extract_hybrid_blank_document [OF sample_fs_read] by blast
qed

text \<open>
  C12: a page for which pdfplumber's \<open>extract_text\<close> returns \<open>None\<close> makes the whole
  extraction fail with the AttributeError of \<open>None.strip()\<close>, even when other pages
  have text, and before any OCR fallback.
\<close>

theorem extract_hybrid_none_page:
  assumes "fs_read s p = Inr data" and "plumber_pages be data = Inr pages" and "None \<in> set pages"
  shows "extract_text_hybrid be s p = Inl NoneStrip"
  using assms native_pages_None [OF assms(3)] by (simp add: extract_text_hybrid_def)

theorem extract_hybrid_none_page_witness:
  "extract_text_hybrid (text_backend\<lparr>plumber_pages := (\<lambda>d. Inr [Some ''Stout S10'', None])\<rparr>)
     sample_fs ''./example_pdfs/menu.pdf'' = Inl NoneStrip"
proof -
  have "plumber_pages (text_backend\<lparr>plumber_pages := (\<lambda>d. Inr [Some ''Stout S10'', None])\<rparr>) ''%PDF-1.4'' =
        Inr [Some ''Stout S10'', None]" by simp
  moreover have "None \<in> set [Some ''Stout S10'', None]" by simp
  ultimately show ?thesis using extract_hybrid_none_page [OF sample_fs_read] by blast
qed

text \<open>
  C13: every exception of a library call propagates unchanged: a missing file, a
  failing pdfplumber, a failing rasteriser on a document without text layer, and the
  first page on which tesseract fails.
\<close>

theorem extract_hybrid_errors:
  "(fs_read s p = Inl e \<longrightarrow> extract_text_hybrid be s p = Inl e) \<and>
   (fs_read s p = Inr data \<and> plumber_pages be data = Inl e \<longrightarrow> extract_text_hybrid be s p = Inl e) \<and>
   (fs_read s p = Inr data \<and> plumber_pages be data = Inr (map Some texts) \<and>
    list_all (\<lambda>t. py_strip t = []) texts \<and> convert_pages be data DEFAULT_DPI = Inl e \<longrightarrow>
    extract_text_hybrid be s p = Inl e) \<and>
   (fs_read s p = Inr data \<and> plumber_pages be data = Inr (map Some texts) \<and>
    list_all (\<lambda>t. py_strip t = []) texts \<and> convert_pages be data DEFAULT_DPI = Inr imgs \<and>
    k < length imgs \<and> image_to_string be (imgs ! k) = Inl e \<and>
    (\<forall>j < k. \<exists>t. image_to_string be (imgs ! j) = Inr t) \<longrightarrow>
    extract_text_hybrid be s p = Inl e)"
proof (intro conjI impI)
  show "extract_text_hybrid be s p = Inl e" if "fs_read s p = Inl e"
    using that by (simp add: extract_text_hybrid_def)
  show "extract_text_hybrid be s p = Inl e" if "fs_read s p = Inr data \<and> plumber_pages be data = Inl e"
    using that by (simp add: extract_text_hybrid_def)
  show "extract_text_hybrid be s p = Inl e"
    if "fs_read s p = Inr data \<and> plumber_pages be data = Inr (map Some texts) \<and>
        list_all (\<lambda>t. py_strip t = []) texts \<and> convert_pages be data DEFAULT_DPI = Inl e"
    using that extract_hybrid_eq [of s p data be texts] by simp
  show "extract_text_hybrid be s p = Inl e"
    if h: "fs_read s p = Inr data \<and> plumber_pages be data = Inr (map Some texts) \<and>
        list_all (\<lambda>t. py_strip t = []) texts \<and> convert_pages be data DEFAULT_DPI = Inr imgs \<and>
        k < length imgs \<and> image_to_string be (imgs ! k) = Inl e \<and>
        (\<forall>j < k. \<exists>t. image_to_string be (imgs ! j) = Inr t)"
    using h extract_hybrid_eq [of s p data be texts] ocr_pages_Inl [of k imgs be e 1] by simp
qed

theorem extract_hybrid_errors_witness:
  "extract_text_hybrid text_backend sample_fs ''./example_pdfs/other.pdf'' = Inl (OSError ''./example_pdfs/other.pdf'') \<and>
   extract_text_hybrid (scan_backend\<lparr>image_to_string := (\<lambda>i. Inl (TesseractError ''tesseract is not installed''))\<rparr>)
     sample_fs ''./example_pdfs/menu.pdf'' = Inl (TesseractError ''tesseract is not installed'')"
proof -
  let ?be = "scan_backend\<lparr>image_to_string := (\<lambda>i. Inl (TesseractError ''tesseract is not installed''))\<rparr>"
  have r: "fs_read sample_fs ''./example_pdfs/other.pdf'' = Inl (OSError ''./example_pdfs/other.pdf'')"
    by (simp add: sample_fs_def fs_read_def normpath_def initial_slashes_def)
  have "plumber_pages ?be ''%PDF-1.4'' = Inr (map Some [[], '' ''])
        \<and> list_all (\<lambda>t. py_strip t = []) [[], '' '']
        \<and> convert_pages ?be ''%PDF-1.4'' DEFAULT_DPI = Inr [1, 2]
        \<and> 0 < length [1::nat, 2] \<and> image_to_string ?be ([1, 2] ! 0) = Inl (TesseractError ''tesseract is not installed'')
        \<and> (\<forall>j < 0. \<exists>t. image_to_string ?be ([1::nat, 2] ! j) = Inr t)"
    by (simp add: scan_backend_def py_strip_def py_isspace_def)
  then show ?thesis
    using extract_hybrid_errors [of sample_fs "''./example_pdfs/other.pdf''" "OSError ''./example_pdfs/other.pdf''" text_backend]
      extract_hybrid_errors [of sample_fs "''./example_pdfs/menu.pdf''" "TesseractError ''tesseract is not installed''" ?be
        "''%PDF-1.4''" "[[], '' '']" "[1, 2]" 0]
      r sample_fs_read by blast
qed

text \<open>
  C14: the pages either loop keeps are in strictly increasing page order, numbered
  within the document, and carry non-empty text with no surrounding whitespace.
\<close>

theorem extract_pages_ok:
  "(native_pages n ps = Inr r \<longrightarrow> pages_ok n (length ps) r) \<and>
   (ocr_pages be n imgs = Inr r' \<longrightarrow> pages_ok n (length imgs) r')"
proof (intro conjI impI)
  assume "native_pages n ps = Inr r"
  then have "None \<notin> set ps" and "r = nonblank_pages n (map the ps)"
    by (simp_all add: native_pages_cases split: if_splits)
  then show "pages_ok n (length ps) r" using nonblank_pages_ok [of n "map the ps"] by simp
next
  assume o: "ocr_pages be n imgs = Inr r'"
  then obtain ts where ts: "map (image_to_string be) imgs = map Inr ts" using ocr_pages_texts by blast
  then have "r' = nonblank_pages n (map clean_ocr_text ts)" using o ocr_pages_Inr [OF ts] by simp
  moreover have "length ts = length imgs" using ts by (metis length_map)
  ultimately show "pages_ok n (length imgs) r'" using nonblank_pages_ok [of n "map clean_ocr_text ts"] by simp
qed

theorem extract_pages_ok_witness:
  "native_pages 1 [Some '' Stout '', Some '' '', Some ''Ale''] = Inr [(1, ''Stout''), (3, ''Ale'')] \<and>
   pages_ok 1 3 [(1, ''Stout''), (3, ''Ale'')]"
proof -
  have n: "native_pages 1 [Some '' Stout '', Some '' '', Some ''Ale''] = Inr [(1, ''Stout''), (3, ''Ale'')]"
    by code_simp
  then have "pages_ok 1 (length [Some '' Stout '', Some '' '', Some ''Ale'']) [(1, ''Stout''), (3, ''Ale'')]"
    using extract_pages_ok [of 1 "[Some '' Stout '', Some '' '', Some ''Ale'']" "[(1, ''Stout''), (3, ''Ale'')]"] by blast
  then have "pages_ok 1 3 [(1, ''Stout''), (3, ''Ale'')]" by (simp add: numeral_3_eq_3)
  with n show ?thesis by (rule conjI)
qed

subsection \<open>Reading the page markers back\<close>

text \<open>
  The specification passes page boundaries to the model only as \<open>Page n: \<close> markers
  at the start of the lines. \<open>parse_pages\<close> reads such a text back into pages: each
  line must be \<open>Page \<close>, a decimal number, \<open>: \<close> and the page text.
\<close>

definition parse_line :: "string \<Rightarrow> page_text option" where
  "parse_line l =
     (if take 5 l \<noteq> ''Page '' then None
      else let r = drop 5 l; ds = takeWhile is_digit r; rest = drop (length ds) r in
        if ds \<noteq> [] \<and> take 2 rest = '': '' then Some (digits_val ds, drop 2 rest) else None)"

definition parse_pages :: "string \<Rightarrow> page_text list option" where
  "parse_pages s = (if s = [] then Some [] else those (map parse_line (split_on CHR 0x0A s)))"

lemma takeWhile_all_append: "list_all P xs \<Longrightarrow> takeWhile P (xs @ ys) = xs @ takeWhile P ys"
  by (induction xs) auto

lemma parse_page_line: "parse_line (page_line p) = Some p"
proof -
  have d: "takeWhile is_digit (str_nat (fst p) @ CHR '':'' # CHR '' '' # snd p) = str_nat (fst p)"
    using takeWhile_all_append [OF str_nat_digits] by (simp add: is_digit_def)
  show ?thesis
    by (simp add: parse_line_def page_line_def Let_def d str_nat_nonempty digits_val_str_nat)
qed

lemma page_line_no_nl:
  "CHR 0x0A \<notin> set (snd p) \<Longrightarrow> CHR 0x0A \<notin> set (page_line p)"
proof -
  have "CHR 0x0A \<notin> set (str_nat (fst p))"
    using str_nat_digits [of "fst p"] by (auto simp: list_all_iff is_digit_def)
  then show "CHR 0x0A \<notin> set (snd p) \<Longrightarrow> ?thesis" by (simp add: page_line_def)
qed

lemma those_map_parse_line: "those (map (parse_line \<circ> page_line) ps) = Some ps"
  by (induction ps) (simp_all add: parse_page_line)

text \<open>
  C24: the page markers are a faithful encoding when no page text spans lines: reading
  the serialised text back gives the kept pages, numbers and texts.
\<close>

theorem parse_join_pages:
  "list_all (\<lambda>p. CHR 0x0A \<notin> set (snd p)) ps \<Longrightarrow> parse_pages (join_pages ps) = Some ps"
proof (cases "ps = []")
  case True
  then show ?thesis by (simp add: parse_pages_def join_pages_def)
next
  case False
  assume nl: "list_all (\<lambda>p. CHR 0x0A \<notin> set (snd p)) ps"
  have "join_pages ps \<noteq> []"
    using False by (cases ps) (simp_all add: join_pages_def page_line_def)
  moreover have "split_on CHR 0x0A (join_pages ps) = map page_line ps"
    unfolding join_pages_def using False nl
    by (intro split_on_py_join) (auto simp: list_all_iff page_line_no_nl)
  ultimately show ?thesis by (simp add: parse_pages_def those_map_parse_line)
qed

theorem parse_join_pages_witness:
  "parse_pages (join_pages [(1, ''Stout''), (3, ''Ale'')]) = Some [(1, ''Stout''), (3, ''Ale'')]"
  using parse_join_pages [of "[(1, ''Stout''), (3, ''Ale'')]"] by simp

text \<open>
  The markers are ambiguous otherwise: the stripped text layer keeps inner
  newlines, so a single page whose text contains a line \<open>Page 2: b\<close> is serialised
  exactly as two pages.
\<close>

lemma extract_hybrid_markers_ambiguous:
  "extract_text_hybrid (text_backend\<lparr>plumber_pages := (\<lambda>d. Inr [Some (''a'' @ [CHR 0x0A] @ ''Page 2: b'')])\<rparr>)
      sample_fs ''./example_pdfs/menu.pdf'' =
   Inr (join_pages [(1, ''a''), (2, ''b'')])"
proof -
  have "nonblank_pages 1 [''a'' @ [CHR 0x0A] @ ''Page 2: b''] = [(1, ''a'' @ [CHR 0x0A] @ ''Page 2: b'')]"
    by code_simp
  moreover have "join_pages [(1, ''a'' @ [CHR 0x0A] @ ''Page 2: b'')] = join_pages [(1, ''a''), (2, ''b'')]"
    by code_simp
  ultimately show ?thesis
    using extract_hybrid_eq [OF sample_fs_read, of "text_backend\<lparr>plumber_pages := (\<lambda>d. Inr [Some (''a'' @ [CHR 0x0A] @ ''Page 2: b'')])\<rparr>"
            "[''a'' @ [CHR 0x0A] @ ''Page 2: b'']"]
    by (simp add: py_strip_def py_isspace_def)
qed

subsection \<open>The extractor against its specification\<close>

text \<open>
  The specification's algorithm (steps 1 to 4 of \<open>extract\<close>): keep, in page order,
  each page whose trimmed text is not empty, with that trimmed text; when the text layer
  keeps no page, do the same with the OCR output and clean each kept text. The
  specification trims first and cleans the kept text; the code cleans and then trims.
\<close>

definition keep_pages :: "(string \<Rightarrow> string) \<Rightarrow> string list \<Rightarrow> page_text list" where
  "keep_pages f ts = [(k, f (py_strip t)). (k, t) \<leftarrow> zip [1..<Suc (length ts)] ts, py_strip t \<noteq> []]"

definition extract_spec :: "string list \<Rightarrow> string list \<Rightarrow> page_text list" where
  "extract_spec layer ocr =
     (if keep_pages id layer \<noteq> [] then keep_pages id layer else keep_pages clean_ocr_text ocr)"

lemma keep_pages_nonblank:
  "keep_pages f ts = map (\<lambda>(k, t). (k, f t)) (nonblank_pages 1 ts)"
proof -
  have "[(k, f (py_strip t)). (k, t) \<leftarrow> xs, py_strip t \<noteq> []] =
        map (\<lambda>(k, t). (k, f t)) (filter (\<lambda>p. snd p \<noteq> []) (map (\<lambda>(k, t). (k, py_strip t)) xs))"
    for xs :: "(nat \<times> string) list"
    by (induction xs) auto
  then show ?thesis by (simp add: keep_pages_def nonblank_pages_def)
qed

lemma nonblank_pages_clean:
  "nonblank_pages n (map clean_ocr_text ts) = map (\<lambda>(k, t). (k, clean_ocr_text t)) (nonblank_pages n ts)"
  by (induction ts arbitrary: n) (simp_all add: nonblank_pages_Cons strip_clean_empty clean_ocr_text_strip)

text \<open>
  C25: the extractor implements the specification's algorithm: whenever the file, the
  text layer, the rasteriser and the OCR engine deliver, the result is the serialisation
  of \<open>extract_spec\<close> (in particular, cleaning the OCR text before trimming, as the code
  does, gives the specification's trimmed-then-cleaned pages).
\<close>

theorem extract_text_hybrid_refines:
  assumes "fs_read s p = Inr data" and "plumber_pages be data = Inr (map Some layer)"
    and "convert_pages be data DEFAULT_DPI = Inr imgs" and "map (image_to_string be) imgs = map Inr ocr"
  shows "extract_text_hybrid be s p = Inr (join_pages (extract_spec layer ocr))"
proof -
  have k: "keep_pages id layer = nonblank_pages 1 layer"
    by (simp add: keep_pages_nonblank split_def)
  show ?thesis
  proof (cases "list_all (\<lambda>t. py_strip t = []) layer")
    case True
    then have "keep_pages id layer = []" using k nonblank_pages_empty_iff by simp
    then show ?thesis
      using extract_hybrid_ocr_eq [OF assms(1,2) True assms(3,4)]
      by (simp add: extract_spec_def keep_pages_nonblank nonblank_pages_clean)
  next
    case False
    then have "keep_pages id layer \<noteq> []" using k nonblank_pages_empty_iff by simp
    with False show ?thesis
      using extract_hybrid_eq [OF assms(1,2)] k by (simp add: extract_spec_def)
  qed
qed

theorem extract_text_hybrid_refines_witness:
  "extract_text_hybrid scan_backend sample_fs ''./example_pdfs/menu.pdf'' =
   Inr (join_pages (extract_spec [[], '' ''] [''Total: S10 '', '' '']))"
proof -
  have "plumber_pages scan_backend ''%PDF-1.4'' = Inr (map Some [[], '' ''])"
    "convert_pages scan_backend ''%PDF-1.4'' DEFAULT_DPI = Inr [1, 2]"
    "map (image_to_string scan_backend) [1, 2] = map Inr [''Total: S10 '', '' '']"
    by (simp_all add: scan_backend_def)
  then show ?thesis using extract_text_hybrid_refines [OF sample_fs_read] by blast
qed

end
