(* ===== verification/Query.thy ===== *)
theory Query
  imports Complex_Main Prelude "HOL-Library.Sublist"
begin

text \<open>
  The structuring stage of \<open>src/query_llm.py\<close>: the model object configured for JSON
  output at temperature 0.2, \<open>format_prompt\<close> (a fixed instruction block with the
  input text appended after a \<open>**TEXT**\<close> marker) and \<open>query_model_to_json\<close>,
  which sends the prompt and parses the reply with \<open>json.loads\<close>.

  The hosted model is the capability \<open>generate\<close>: given the model object and a
  prompt, the text of the reply or the exception of the call. \<open>json.loads\<close> is a
  decoder of any result type \<open>'j\<close>, the exception \<open>JSONDecodeError\<close> on a reply that
  is not JSON; the development's statements hold for every decoder.
\<close>

record generation_config =
  response_mime_type :: string
  temperature :: real

record gen_model =
  model_name :: string
  generation_config :: generation_config

definition model :: gen_model where
  "model = \<lparr>model_name = ''gemini-1.5-flash'',
            generation_config = \<lparr>response_mime_type = ''application/json'', temperature = 0.2\<rparr>\<rparr>"

type_synonym generate = "gen_model \<Rightarrow> string \<Rightarrow> pyexc + string"

abbreviation nl :: char where
  "nl \<equiv> CHR 0x0A"

text \<open>The lines of the f-string before the input text, with \<open>{{\<close> and \<open>}}\<close> read as
  single braces.\<close>

definition prompt_lines :: "string list" where
  \<open>prompt_lines = [
    ''    The following input text, given after the **TEXT** marker, is from a drinks menu. Extract and structure the following in JSON format:'',
    ''    - Short summary of the menu (is it a beer, a wine list, etc. | What are the key elements of the design?)'',
    ''    - Array of products, for each:'',
    ''        - Name'',
    ''        - Description (if available)'',
    ''        - Price (if available)'',
    ''        - Brand (if recognised)'',
    ''    - Breakdown of the branded percentage on the menu, for example Bacardi 40%, 10000 hours 20%, unbranded 40% (see brands list below).'',
    ''    '',
    ''    Recognised brand List:'',
    ''        - Bacardi'',
    ''        - 10000 hours'',
    ''        - free reign'',
    ''        - state of brewing'',
    ''        - sierra nevada'',
    '''',
    ''    If the text is nonsensical, ignore that portion of the text.'',
    '''',
    ''    Here is an example of the structured output I am expecting:'',
    '''',
    ''    {'',
    ''        "menu_summary": "Beer menu with floral designs and a tropical theme",'',
    ''        "products": ['',
    ''            {'',
    ''                "name": "Sierra Nevada Pale Ale",'',
    ''                "description": "A crisp, refreshing pale ale.",'',
    ''                "price": "$13",'',
    ''                "brand": "Sierra Nevada"'',
    ''            },'',
    ''            {'',
    ''                "name": "State of Brewing Maguires Draught Stout",'',
    ''                "price": "$10"'',
    ''            }'',
    ''        ],'',
    ''        "brand_percentages": {'',
    ''            "Sierra Nevada": 20,'',
    ''            "State of Brewing": 40,'',
    ''            "unbranded": 40'',
    ''        }'',
    ''    }'',
    '''',
    ''    **TEXT**:''
  ]\<close>

definition format_prompt :: "string \<Rightarrow> string" where
  "format_prompt input_text =
     [nl] @ py_join [nl] prompt_lines @ [nl] @ ''    '' @ input_text @ [nl] @ ''    ''"

definition query_model_to_json ::
  "generate \<Rightarrow> (string \<Rightarrow> pyexc + 'j) \<Rightarrow> string \<Rightarrow> pyexc + 'j" where
  "query_model_to_json gen loads input_text =
     res_bind (gen model (format_prompt input_text)) (\<lambda>response_text. loads response_text)"

lemma sublist_py_join: "x \<in> set xs \<Longrightarrow> sublist x (py_join sep xs)"
proof (induction xs)
  case Nil
  then show ?case by simp
next
  case (Cons y ys)
  show ?case
  proof (cases "x = y")
    case True
    then show ?thesis by simp
  next
    case False
    with Cons have "sublist x (py_join sep ys)" and "ys \<noteq> []" by auto
    then obtain ps ss where "py_join sep ys = ps @ x @ ss" by (auto simp: sublist_def)
    with \<open>ys \<noteq> []\<close> have "py_join sep (y # ys) = (y @ sep @ ps) @ x @ ss" by simp
    then show ?thesis by (metis sublist_appendI)
  qed
qed

definition prompt_head :: string where
  "prompt_head = [nl] @ py_join [nl] prompt_lines @ [nl] @ ''    ''"

lemma format_prompt_head: "format_prompt t = prompt_head @ t @ [nl] @ ''    ''"
  by (simp add: format_prompt_def prompt_head_def)

subsection \<open>Properties of the structuring stage\<close>

text \<open>
  The prompt is a fixed instruction block followed by the input text, so distinct
  inputs give distinct prompts and the same input always the same prompt: nothing but
  the appended text varies.
\<close>

theorem format_prompt_inj: "format_prompt a = format_prompt b \<longleftrightarrow> a = b"
  by (simp add: format_prompt_head)

text \<open>
  C15: every brand of the recognised brand list of the specification is a line of the
  prompt, for every input, and the input text follows the \<open>**TEXT**:\<close> marker line.
\<close>

theorem format_prompt_brands:
  "list_all (\<lambda>b. sublist (''        - '' @ b) (format_prompt t))
     [''Bacardi'', ''10000 hours'', ''free reign'', ''state of brewing'', ''sierra nevada''] \<and>
   sublist (''    **TEXT**:'' @ [nl] @ ''    '' @ t) (format_prompt t)"
proof
  show "list_all (\<lambda>b. sublist (''        - '' @ b) (format_prompt t))
     [''Bacardi'', ''10000 hours'', ''free reign'', ''state of brewing'', ''sierra nevada'']"
  proof -
    have "\<forall>b \<in> set [''Bacardi'', ''10000 hours'', ''free reign'', ''state of brewing'', ''sierra nevada''].
            ''        - '' @ b \<in> set prompt_lines"
      by (simp add: prompt_lines_def)
    then have "\<forall>b \<in> set [''Bacardi'', ''10000 hours'', ''free reign'', ''state of brewing'', ''sierra nevada''].
            sublist (''        - '' @ b) (py_join [nl] prompt_lines)"
      using sublist_py_join by blast
    moreover have "sublist (py_join [nl] prompt_lines) (format_prompt t)"
    proof -
      have "format_prompt t = [nl] @ py_join [nl] prompt_lines @ ([nl] @ ''    '' @ t @ [nl] @ ''    '')"
        by (simp add: format_prompt_def)
      then show ?thesis by (simp only:) (rule sublist_appendI)
    qed
    ultimately show ?thesis by (auto simp: list_all_iff intro: sublist_order.order_trans)
  qed
  have "prompt_lines = butlast prompt_lines @ [''    **TEXT**:'']"
    by (simp add: prompt_lines_def)
  moreover have "butlast prompt_lines \<noteq> []" by (simp add: prompt_lines_def)
  ultimately have "py_join [nl] prompt_lines = py_join [nl] (butlast prompt_lines) @ [nl] @ ''    **TEXT**:''"
    by (rule py_join_snoc_butlast)
  then have "format_prompt t = ([nl] @ py_join [nl] (butlast prompt_lines) @ [nl]) @
      (''    **TEXT**:'' @ [nl] @ ''    '' @ t) @ ([nl] @ ''    '')"
    by (simp add: format_prompt_def)
  then show "sublist (''    **TEXT**:'' @ [nl] @ ''    '' @ t) (format_prompt t)"
    by (simp only:) (rule sublist_appendI)
qed

text \<open>
  The reply is passed through: the query returns a value exactly when the model
  answers the prompt of the input with a text that the decoder accepts, and then that
  decoded value, unchanged.
\<close>

lemma query_model_to_json_ok:
  "query_model_to_json gen loads t = Inr v \<longleftrightarrow>
     (\<exists>r. gen model (format_prompt t) = Inr r \<and> loads r = Inr v)"
  by (simp add: query_model_to_json_def res_bind_eq_Inr)

text \<open>
  The query fails exactly when the model call raises (that exception) or the
  decoder rejects the reply (its exception): no retry and no default document.
\<close>

theorem query_model_to_json_error:
  "query_model_to_json gen loads t = Inl e \<longleftrightarrow>
     gen model (format_prompt t) = Inl e \<or> (\<exists>r. gen model (format_prompt t) = Inr r \<and> loads r = Inl e)"
  by (simp add: query_model_to_json_def res_bind_eq_Inl)

text \<open>
  The empty input is not refused: the model is called with the prompt of the empty
  text and its reply decides the result, so there is no \<open>EmptyInput\<close> failure.
\<close>

lemma query_model_to_json_empty:
  "query_model_to_json (\<lambda>m p. if m = model \<and> p = format_prompt [] then Inr r else Inl (ModelCallError ''other''))
     loads [] = loads r"
  by (simp add: query_model_to_json_def)

end
