(* ===== verification/Api.thy ===== *)
theory Api
  imports Extract Query
begin

text \<open>
  The two Flask handlers of \<open>src/menu_api.py\<close>. A request carries the uploaded files
  by form field (\<open>request.files\<close>, each with its client-supplied \<open>filename\<close>, which
  may be missing, and its bytes) and the query arguments (\<open>request.args\<close>). A handler
  returns the JSON body and the status code it passes to \<open>jsonify\<close>, together with the
  file system after its writes; an exception the handler does not catch (the
  \<open>file.save\<close> of \<open>upload_pdf\<close>, outside its \<open>try\<close>) is the \<open>Inl\<close> result, which
  Flask answers with its own error page. The services the handlers call, pdf libraries,
  model, \<open>json.loads\<close> and \<open>json.dump\<close>, are one record, so every theorem holds for
  every service. \<open>str(e)\<close> of a caught exception is kept as the exception itself.
\<close>

definition UPLOAD_FOLDER :: path where
  "UPLOAD_FOLDER = ''./example_pdfs''"

definition OUTPUT_FOLDER :: path where
  "OUTPUT_FOLDER = ''./output_jsons''"

record upload =
  filename :: "string option"
  stream :: string

record request =
  req_files :: "string \<rightharpoonup> upload"
  req_args :: "string \<rightharpoonup> string"

datatype 'j body = ErrorMsg string | ErrorExc pyexc | MenuJson 'j

type_synonym 'j response = "'j body \<times> nat"

record ('img, 'j) services =
  svc_backend :: "'img backend"
  svc_generate :: generate
  svc_loads :: "string \<Rightarrow> pyexc + 'j"
  svc_dump :: "'j \<Rightarrow> string \<times> pyexc option"

text \<open>The two calls every handler makes: extraction, then the model.\<close>

definition menu_pipeline ::
  "'img backend \<Rightarrow> fs \<Rightarrow> path \<Rightarrow> generate \<Rightarrow> (string \<Rightarrow> pyexc + 'j) \<Rightarrow> pyexc + 'j" where
  "menu_pipeline be s file_path gen loads =
     res_bind (extract_text_hybrid be s file_path) (\<lambda>extracted_text.
       query_model_to_json gen loads extracted_text)"

text \<open>The \<open>try\<close> block the handlers share: run the pipeline, open
  \<open>OUTPUT_FOLDER/<name>.json\<close> for writing and \<open>json.dump\<close> into it, answer 200;
  any exception becomes a 500 answer. \<open>svc_dump\<close> gives the text \<open>json.dump\<close> writes
  and the exception it raises after writing it, if any: the file keeps what was
  written before the exception.\<close>

definition save_menu_json ::
  "('img, 'j) services \<Rightarrow> path \<Rightarrow> path \<Rightarrow> fs \<Rightarrow> 'j response \<times> fs" where
  "save_menu_json sv name file_path s =
     (case res_bind (menu_pipeline (svc_backend sv) s file_path (svc_generate sv) (svc_loads sv)) (\<lambda>menu_json.
           res_bind (with_suffix name ''.json'') (\<lambda>json_filename. Inr (menu_json, json_filename)))
      of Inl e \<Rightarrow> ((ErrorExc e, 500), s)
       | Inr (menu_json, json_filename) \<Rightarrow>
           (case svc_dump sv menu_json of (text, err) \<Rightarrow>
              case fs_write s (os_path_join OUTPUT_FOLDER json_filename) text of
                Inl e \<Rightarrow> ((ErrorExc e, 500), s)
              | Inr s' \<Rightarrow>
                  (case err of None \<Rightarrow> ((MenuJson menu_json, 200), s')
                   | Some e \<Rightarrow> ((ErrorExc e, 500), s'))))"

definition upload_pdf ::
  "('img, 'j) services \<Rightarrow> request \<Rightarrow> fs \<Rightarrow> pyexc + 'j response \<times> fs" where
  "upload_pdf sv req s =
     (case req_files req ''pdf'' of
        None \<Rightarrow> Inr ((ErrorMsg ''No PDF file part'', 400), s)
      | Some file \<Rightarrow>
          if filename file = Some [] then Inr ((ErrorMsg ''No selected file'', 400), s)
          else case filename file of
            Some fn \<Rightarrow>
              if py_endswith fn ''.pdf'' then
                let file_path = os_path_join UPLOAD_FOLDER fn in
                res_bind (fs_write s file_path (stream file)) (\<lambda>s'.
                  Inr (save_menu_json sv fn file_path s'))
              else Inr ((ErrorMsg ''Invalid file type. Please upload a PDF.'', 400), s)
          | None \<Rightarrow> Inr ((ErrorMsg ''Invalid file type. Please upload a PDF.'', 400), s))"

definition process_pdf ::
  "('img, 'j) services \<Rightarrow> request \<Rightarrow> fs \<Rightarrow> 'j response \<times> fs" where
  "process_pdf sv req s =
     (case req_args req ''pdf'' of
        None \<Rightarrow> ((ErrorMsg ''No PDF filename provided'', 400), s)
      | Some pdf_filename \<Rightarrow>
          if pdf_filename = [] then ((ErrorMsg ''No PDF filename provided'', 400), s)
          else let file_path = os_path_join UPLOAD_FOLDER pdf_filename in
            if \<not> os_path_exists s file_path
            then ((ErrorMsg (''File '' @ pdf_filename @ '' not found''), 404), s)
            else save_menu_json sv pdf_filename file_path s)"

subsection \<open>Handler lemmas\<close>

lemma save_menu_json_cases:
  "(\<exists>e. save_menu_json sv name file_path s = ((ErrorExc e, 500), s))
   \<or> (\<exists>j jf t err s'. menu_pipeline (svc_backend sv) s file_path (svc_generate sv) (svc_loads sv) = Inr j \<and>
        with_suffix name ''.json'' = Inr jf \<and> svc_dump sv j = (t, err) \<and>
        fs_write s (os_path_join OUTPUT_FOLDER jf) t = Inr s' \<and>
        save_menu_json sv name file_path s =
          (case err of None \<Rightarrow> ((MenuJson j, 200), s') | Some e \<Rightarrow> ((ErrorExc e, 500), s')))"
  by (auto simp: save_menu_json_def res_bind_def split: sum.splits prod.splits)

lemma save_menu_json_written:
  assumes "menu_pipeline (svc_backend sv) s file_path (svc_generate sv) (svc_loads sv) = Inr j"
    and "with_suffix name ''.json'' = Inr jf" and "svc_dump sv j = (t, err)"
    and "fs_write s (os_path_join OUTPUT_FOLDER jf) t = Inr s'"
  shows "save_menu_json sv name file_path s =
           (case err of None \<Rightarrow> ((MenuJson j, 200), s') | Some e \<Rightarrow> ((ErrorExc e, 500), s'))"
  using assms by (simp add: save_menu_json_def)

lemma save_menu_json_pipeline_error:
  "menu_pipeline (svc_backend sv) s file_path (svc_generate sv) (svc_loads sv) = Inl e \<Longrightarrow>
   save_menu_json sv name file_path s = ((ErrorExc e, 500), s)"
  by (simp add: save_menu_json_def)

lemma save_menu_json_wf: "fs_wf s \<Longrightarrow> fs_wf (snd (save_menu_json sv name file_path s))"
  using save_menu_json_cases [of sv name file_path s] fs_write_wf by (fastforce split: option.splits)

lemma save_menu_json_status: "snd (fst (save_menu_json sv name file_path s)) \<in> {200, 500}"
  using save_menu_json_cases [of sv name file_path s] by (auto split: option.splits)

text \<open>What survives of the state: every file but the JSON output keeps its contents.\<close>

lemma save_menu_json_frame:
  assumes "\<And>jf. with_suffix name ''.json'' = Inr jf \<Longrightarrow> normpath (os_path_join OUTPUT_FOLDER jf) \<noteq> normpath q"
  shows "fs_read (snd (save_menu_json sv name file_path s)) q = fs_read s q"
  using save_menu_json_cases [of sv name file_path s] fs_read_write_other assms by (fastforce split: option.splits)

lemma os_path_join_folder:
  "CHR ''/'' \<notin> set stem \<Longrightarrow> stem \<noteq> [] \<Longrightarrow> os_path_join OUTPUT_FOLDER (stem @ x) = ''./output_jsons/'' @ stem @ x"
  by (cases stem) (auto simp: os_path_join_def OUTPUT_FOLDER_def)

lemma upload_pdf_cases:
  assumes "upload_pdf sv req s = Inr (r, s')"
  shows "(snd r = 400 \<and> s' = s) \<or>
         (\<exists>f fn s1. req_files req ''pdf'' = Some f \<and> filename f = Some fn \<and>
            fs_write s (os_path_join UPLOAD_FOLDER fn) (stream f) = Inr s1 \<and>
            (r, s') = save_menu_json sv fn (os_path_join UPLOAD_FOLDER fn) s1)"
  using assms by (auto simp: upload_pdf_def Let_def res_bind_def split: option.splits if_splits sum.splits)

lemma process_pdf_written:
  assumes "req_args req ''pdf'' = Some (stem @ ''.pdf'')" and "CHR ''/'' \<notin> set stem" and "stem \<noteq> []"
    and "os_path_exists s (os_path_join UPLOAD_FOLDER (stem @ ''.pdf''))"
    and "menu_pipeline (svc_backend sv) s (os_path_join UPLOAD_FOLDER (stem @ ''.pdf''))
           (svc_generate sv) (svc_loads sv) = Inr j"
    and "svc_dump sv j = (t, err)"
    and "fs_write s (''./output_jsons/'' @ stem @ ''.json'') t = Inr s'"
  shows "process_pdf sv req s = (case err of None \<Rightarrow> ((MenuJson j, 200), s') | Some e \<Rightarrow> ((ErrorExc e, 500), s')) \<and>
         fs_read s' (''./output_jsons/'' @ stem @ ''.json'') = Inr t"
proof
  have "os_path_join OUTPUT_FOLDER (stem @ ''.json'') = ''./output_jsons/'' @ stem @ ''.json''"
    by (rule os_path_join_folder [OF assms(2,3)])
  then have "save_menu_json sv (stem @ ''.pdf'') (os_path_join UPLOAD_FOLDER (stem @ ''.pdf'')) s =
      (case err of None \<Rightarrow> ((MenuJson j, 200), s') | Some e \<Rightarrow> ((ErrorExc e, 500), s'))"
    using save_menu_json_written [OF assms(5) with_suffix_simple [OF assms(2,3)] assms(6)] assms(7) by simp
  then show "process_pdf sv req s = (case err of None \<Rightarrow> ((MenuJson j, 200), s') | Some e \<Rightarrow> ((ErrorExc e, 500), s'))"
    using assms(1,4) by (simp add: process_pdf_def Let_def)
  show "fs_read s' (''./output_jsons/'' @ stem @ ''.json'') = Inr t"
    using assms(7) by (rule fs_read_write_same)
qed

subsection \<open>Sample requests\<close>

definition pdf_request :: "string option \<Rightarrow> string \<Rightarrow> request" where
  "pdf_request fn data = \<lparr>req_files = [''pdf'' \<mapsto> \<lparr>filename = fn, stream = data\<rparr>], req_args = Map.empty\<rparr>"

definition arg_request :: "string \<Rightarrow> request" where
  "arg_request fn = \<lparr>req_files = Map.empty, req_args = [''pdf'' \<mapsto> fn]\<rparr>"

lemma sample_fs_wf: "fs_wf sample_fs"
proof -
  have "key_parent ''example_pdfs/menu.pdf'' = ''example_pdfs''" by code_simp
  then show ?thesis by (simp add: fs_wf_def sample_fs_def)
qed

definition sample_services :: "(unit, string) services" where
  "sample_services = \<lparr>svc_backend = text_backend, svc_generate = (\<lambda>m p. Inr ''{}''),
                       svc_loads = Inr, svc_dump = (\<lambda>j. (j, None))\<rparr>"

lemma text_backend_extracted:
  assumes "fs_read s p = Inr d"
  shows "extract_text_hybrid text_backend s p = Inr ''Page 1: Sierra Nevada Pale Ale S13''"
proof -
  have "nonblank_pages 1 [''Sierra Nevada Pale Ale S13'', ''  ''] = [(1, ''Sierra Nevada Pale Ale S13'')]"
    by code_simp
  moreover have "str_nat 1 = ''1''" by code_simp
  ultimately show ?thesis
    using extract_hybrid_eq [OF assms, of text_backend "[''Sierra Nevada Pale Ale S13'', ''  '']"]
    by (simp add: text_backend_def join_pages_def page_line_def py_strip_def py_isspace_def)
qed

lemma sample_pipeline:
  "menu_pipeline (svc_backend sample_services) sample_fs ''./example_pdfs/menu.pdf''
     (svc_generate sample_services) (svc_loads sample_services) = Inr ''{}''"
  by (simp add: menu_pipeline_def sample_services_def text_backend_extracted [OF sample_fs_read] query_model_to_json_def)

lemma sample_fs_menu:
  "os_path_exists sample_fs ''./example_pdfs/menu.pdf''"
  "os_path_join UPLOAD_FOLDER ''menu.pdf'' = ''./example_pdfs/menu.pdf''"
  "fs_write sample_fs ''./output_jsons/menu.json'' t =
     Inr (sample_fs\<lparr>fs_files := (fs_files sample_fs)(''output_jsons/menu.json'' \<mapsto> t)\<rparr>)"
proof -
  have n: "normpath ''./example_pdfs/menu.pdf'' = ''example_pdfs/menu.pdf''" by code_simp
  then show "os_path_exists sample_fs ''./example_pdfs/menu.pdf''"
    by (simp add: os_path_exists_def sample_fs_def)
  show "os_path_join UPLOAD_FOLDER ''menu.pdf'' = ''./example_pdfs/menu.pdf''"
    by (simp add: os_path_join_def UPLOAD_FOLDER_def)
  have "normpath ''./output_jsons/menu.json'' = ''output_jsons/menu.json''" by code_simp
  moreover have "key_parent ''output_jsons/menu.json'' = ''output_jsons''" by code_simp
  ultimately show "fs_write sample_fs ''./output_jsons/menu.json'' t =
     Inr (sample_fs\<lparr>fs_files := (fs_files sample_fs)(''output_jsons/menu.json'' \<mapsto> t)\<rparr>)"
    by (simp add: fs_write_def sample_fs_def)
qed

lemma sample_upload_new:
  "\<exists>r s'. upload_pdf sample_services (pdf_request (Some ''new.pdf'') ''d'') sample_fs = Inr (r, s')"
proof -
  let ?s1 = "sample_fs\<lparr>fs_files := (fs_files sample_fs)(''example_pdfs/new.pdf'' \<mapsto> ''d'')\<rparr>"
  have n: "normpath ''./example_pdfs/new.pdf'' = ''example_pdfs/new.pdf''"
      "key_parent ''example_pdfs/new.pdf'' = ''example_pdfs''" by code_simp+
  have "fs_write sample_fs (os_path_join UPLOAD_FOLDER ''new.pdf'') ''d'' = Inr ?s1"
    using n by (simp add: fs_write_def os_path_join_def UPLOAD_FOLDER_def sample_fs_def)
  then have "upload_pdf sample_services (pdf_request (Some ''new.pdf'') ''d'') sample_fs =
      Inr (save_menu_json sample_services ''new.pdf'' (os_path_join UPLOAD_FOLDER ''new.pdf'') ?s1)"
    by (simp add: upload_pdf_def pdf_request_def py_endswith_def)
  then show ?thesis by (metis prod.collapse)
qed

subsection \<open>Properties of the handlers\<close>

text \<open>
  C16: \<open>upload_pdf\<close> answers 400 without touching the file system when the form has
  no \<open>pdf\<close> part, when its file name is empty, and when the file name is missing or
  does not end in \<open>.pdf\<close>.
\<close>

theorem upload_pdf_rejects:
  "(req_files req ''pdf'' = None \<longrightarrow> upload_pdf sv req s = Inr ((ErrorMsg ''No PDF file part'', 400), s)) \<and>
   (req_files req ''pdf'' = Some f \<and> filename f = Some [] \<longrightarrow>
      upload_pdf sv req s = Inr ((ErrorMsg ''No selected file'', 400), s)) \<and>
   (req_files req ''pdf'' = Some f \<and>
      (filename f = None \<or> (\<exists>fn. filename f = Some fn \<and> fn \<noteq> [] \<and> \<not> py_endswith fn ''.pdf'')) \<longrightarrow>
      upload_pdf sv req s = Inr ((ErrorMsg ''Invalid file type. Please upload a PDF.'', 400), s))"
  by (auto simp: upload_pdf_def)

theorem upload_pdf_rejects_witness:
  "upload_pdf sample_services (pdf_request (Some ''menu.txt'') ''x'') sample_fs =
     Inr ((ErrorMsg ''Invalid file type. Please upload a PDF.'', 400), sample_fs)"
proof -
  have "\<not> py_endswith ''menu.txt'' ''.pdf''" by (simp add: py_endswith_def)
  then show ?thesis
    using upload_pdf_rejects [of "pdf_request (Some ''menu.txt'') ''x''" sample_services sample_fs
            "\<lparr>filename = Some ''menu.txt'', stream = ''x''\<rparr>"]
    by (simp add: pdf_request_def)
qed

text \<open>
  C17: the client's file name is joined to the upload folder unchecked: an upload
  named \<open>../menu.pdf\<close> is stored as \<open>menu.pdf\<close> in the working directory, outside
  \<open>example_pdfs\<close>, whatever the services do afterwards.
\<close>

theorem upload_pdf_outside_folder:
  "\<exists>r s'. upload_pdf sv (pdf_request (Some ''../menu.pdf'') data) sample_fs = Inr (r, s') \<and>
          fs_files s' ''menu.pdf'' = Some data"
proof -
  let ?p = "os_path_join UPLOAD_FOLDER ''../menu.pdf''"
  have n: "normpath ?p = ''menu.pdf''" by (simp add: UPLOAD_FOLDER_def os_path_join_def) code_simp
  have k: "key_parent ''menu.pdf'' = ''.''" by code_simp
  define s1 where "s1 = sample_fs\<lparr>fs_files := (fs_files sample_fs)(''menu.pdf'' \<mapsto> data)\<rparr>"
  have w: "fs_write sample_fs ?p data = Inr s1"
    by (simp add: fs_write_def n k s1_def sample_fs_def)
  have j: "with_suffix ''../menu.pdf'' ''.json'' = Inr ''../menu.json''" by code_simp
  have o: "normpath (os_path_join OUTPUT_FOLDER ''../menu.json'') = ''menu.json''"
    by (simp add: OUTPUT_FOLDER_def os_path_join_def) code_simp
  have m: "normpath ''menu.pdf'' = ''menu.pdf''" by code_simp
  have "fs_read (snd (save_menu_json sv ''../menu.pdf'' ?p s1)) ''menu.pdf'' = fs_read s1 ''menu.pdf''"
    by (rule save_menu_json_frame) (simp add: j o m)
  then have "fs_files (snd (save_menu_json sv ''../menu.pdf'' ?p s1)) ''menu.pdf'' = Some data"
    by (simp add: fs_read_def s1_def m split: option.splits)
  moreover have "upload_pdf sv (pdf_request (Some ''../menu.pdf'') data) sample_fs =
      Inr (save_menu_json sv ''../menu.pdf'' ?p s1)"
    using w by (simp add: upload_pdf_def pdf_request_def py_endswith_def Let_def)
  ultimately show ?thesis by (metis prod.collapse)
qed

text \<open>
  Both handlers keep the file system well formed: every file they write lies in an
  existing directory and is not itself a directory.
\<close>

lemma handlers_preserve_wf:
  "fs_wf s \<Longrightarrow> (upload_pdf sv req s = Inr (r, s') \<longrightarrow> fs_wf s') \<and> fs_wf (snd (process_pdf sv req s))"
proof
  assume wf: "fs_wf s"
  show "upload_pdf sv req s = Inr (r, s') \<longrightarrow> fs_wf s'"
  proof
    assume "upload_pdf sv req s = Inr (r, s')"
    then consider "s' = s"
      | f :: upload and fn s1 where "fs_write s (os_path_join UPLOAD_FOLDER fn) (stream f) = Inr s1"
          and "(r, s') = save_menu_json sv fn (os_path_join UPLOAD_FOLDER fn) s1"
      using upload_pdf_cases by blast
    then show "fs_wf s'"
    proof cases
      case 1
      with wf show ?thesis by simp
    next
      case (2 f fn s1)
      then show ?thesis using save_menu_json_wf [OF fs_write_wf [OF wf 2(1)], of sv fn] by (metis snd_conv)
    qed
  qed
  show "fs_wf (snd (process_pdf sv req s))"
    using wf by (auto simp: process_pdf_def Let_def save_menu_json_wf split: option.splits)
qed

text \<open>
  C18: a successful \<open>upload_pdf\<close> for the file name \<open>fn\<close> keeps the file system well
  formed and changes no file other than the upload \<open>./example_pdfs/fn\<close> and the JSON
  output \<open>./output_jsons/\<close> plus \<open>fn\<close> with its suffix replaced by \<open>.json\<close>: every other
  path reads as it did before the request.
\<close>

theorem upload_pdf_frame:
  assumes "fs_wf s" and "upload_pdf sv req s = Inr (r, s')"
    and "req_files req ''pdf'' = Some f" and "filename f = Some fn"
    and "normpath q \<noteq> normpath (os_path_join UPLOAD_FOLDER fn)"
    and "\<And>jf. with_suffix fn ''.json'' = Inr jf \<Longrightarrow> normpath q \<noteq> normpath (os_path_join OUTPUT_FOLDER jf)"
  shows "fs_wf s' \<and> fs_read s' q = fs_read s q"
proof
  show "fs_wf s'" using handlers_preserve_wf [OF assms(1)] assms(2) by blast
  from upload_pdf_cases [OF assms(2)] show "fs_read s' q = fs_read s q"
  proof (elim disjE exE conjE)
    fix f' fn' s1
    assume "req_files req ''pdf'' = Some f'" "filename f' = Some fn'"
      and w: "fs_write s (os_path_join UPLOAD_FOLDER fn') (stream f') = Inr s1"
      and e: "(r, s') = save_menu_json sv fn' (os_path_join UPLOAD_FOLDER fn') s1"
    then have fn: "fn' = fn" using assms(3,4) by simp
    have "fs_read s1 q = fs_read s q" using fs_read_write_other [OF w] assms(5) fn by simp
    moreover have "fs_read s' q = fs_read s1 q"
      using save_menu_json_frame [of fn q sv "os_path_join UPLOAD_FOLDER fn" s1] assms(6) e fn
      by (metis snd_conv)
    ultimately show ?thesis by simp
  qed simp
qed

theorem upload_pdf_frame_witness:
  "\<exists>r s'. upload_pdf sample_services (pdf_request (Some ''new.pdf'') ''d'') sample_fs = Inr (r, s') \<and>
     fs_wf s' \<and> fs_read s' ''./example_pdfs/menu.pdf'' = fs_read sample_fs ''./example_pdfs/menu.pdf''"
proof -
  obtain r s' where u: "upload_pdf sample_services (pdf_request (Some ''new.pdf'') ''d'') sample_fs = Inr (r, s')"
    using sample_upload_new by blast
  have n: "normpath ''./example_pdfs/menu.pdf'' \<noteq> normpath (os_path_join UPLOAD_FOLDER ''new.pdf'')"
    "with_suffix ''new.pdf'' ''.json'' = Inr ''new.json''"
    "normpath ''./example_pdfs/menu.pdf'' \<noteq> normpath (os_path_join OUTPUT_FOLDER ''new.json'')"
    by code_simp+
  have "fs_wf s' \<and> fs_read s' ''./example_pdfs/menu.pdf'' = fs_read sample_fs ''./example_pdfs/menu.pdf''"
    using upload_pdf_frame [OF sample_fs_wf u, where f = "\<lparr>filename = Some ''new.pdf'', stream = ''d''\<rparr>"
        and fn = "''new.pdf''" and q = "''./example_pdfs/menu.pdf''"] n
    by (simp add: pdf_request_def)
  with u show ?thesis by blast
qed

text \<open>
  C19: \<open>process_pdf\<close> on an existing \<open>stem.pdf\<close> for which the pipeline succeeds
  and \<open>json.dump\<close> raises nothing answers 200 with the decoded menu and leaves the
  dumped text in \<open>./output_jsons/stem.json\<close>.
\<close>

theorem process_pdf_ok:
  assumes "req_args req ''pdf'' = Some (stem @ ''.pdf'')" and "CHR ''/'' \<notin> set stem" and "stem \<noteq> []"
    and "os_path_exists s (os_path_join UPLOAD_FOLDER (stem @ ''.pdf''))"
    and "menu_pipeline (svc_backend sv) s (os_path_join UPLOAD_FOLDER (stem @ ''.pdf''))
           (svc_generate sv) (svc_loads sv) = Inr j"
    and "svc_dump sv j = (t, None)"
    and "fs_write s (''./output_jsons/'' @ stem @ ''.json'') t = Inr s'"
  shows "process_pdf sv req s = ((MenuJson j, 200), s') \<and>
         fs_read s' (''./output_jsons/'' @ stem @ ''.json'') = Inr t"
  using process_pdf_written [OF assms] by simp

theorem process_pdf_ok_witness:
  "process_pdf sample_services (arg_request ''menu.pdf'') sample_fs =
     ((MenuJson ''{}'', 200), sample_fs\<lparr>fs_files := (fs_files sample_fs)(''output_jsons/menu.json'' \<mapsto> ''{}'')\<rparr>) \<and>
   fs_read (sample_fs\<lparr>fs_files := (fs_files sample_fs)(''output_jsons/menu.json'' \<mapsto> ''{}'')\<rparr>)
     ''./output_jsons/menu.json'' = Inr ''{}''"
proof -
  have "svc_dump sample_services ''{}'' = (''{}'', None)" by (simp add: sample_services_def)
  then show ?thesis
    using process_pdf_ok [of "arg_request ''menu.pdf''" "''menu''" sample_fs sample_services "''{}''"]
      sample_fs_menu sample_pipeline
    by (simp add: arg_request_def)
qed

text \<open>
  C20: when \<open>json.dump\<close> raises after writing part of the document (an integer too
  long for \<open>int.__repr__\<close>, a value it cannot serialise), \<open>process_pdf\<close> answers 500
  with that exception, and the output file keeps the partial text: the handler neither
  removes nor completes it.
\<close>

theorem process_pdf_dump_error:
  assumes "req_args req ''pdf'' = Some (stem @ ''.pdf'')" and "CHR ''/'' \<notin> set stem" and "stem \<noteq> []"
    and "os_path_exists s (os_path_join UPLOAD_FOLDER (stem @ ''.pdf''))"
    and "menu_pipeline (svc_backend sv) s (os_path_join UPLOAD_FOLDER (stem @ ''.pdf''))
           (svc_generate sv) (svc_loads sv) = Inr j"
    and "svc_dump sv j = (t, Some e)"
    and "fs_write s (''./output_jsons/'' @ stem @ ''.json'') t = Inr s'"
  shows "process_pdf sv req s = ((ErrorExc e, 500), s') \<and>
         fs_read s' (''./output_jsons/'' @ stem @ ''.json'') = Inr t"
  using process_pdf_written [OF assms] by simp

theorem process_pdf_dump_error_witness:
  "process_pdf (sample_services\<lparr>svc_dump := (\<lambda>j. (''{'', Some (ValueError ''int''))) \<rparr>) (arg_request ''menu.pdf'') sample_fs =
     ((ErrorExc (ValueError ''int''), 500), sample_fs\<lparr>fs_files := (fs_files sample_fs)(''output_jsons/menu.json'' \<mapsto> ''{'')\<rparr>) \<and>
   fs_read (sample_fs\<lparr>fs_files := (fs_files sample_fs)(''output_jsons/menu.json'' \<mapsto> ''{'')\<rparr>)
     ''./output_jsons/menu.json'' = Inr ''{''"
proof -
  let ?sv = "sample_services\<lparr>svc_dump := (\<lambda>j. (''{'', Some (ValueError ''int''))) \<rparr>"
  have "menu_pipeline (svc_backend ?sv) sample_fs ''./example_pdfs/menu.pdf'' (svc_generate ?sv) (svc_loads ?sv) = Inr ''{}''"
    using sample_pipeline by simp
  then show ?thesis
    using process_pdf_dump_error [of "arg_request ''menu.pdf''" "''menu''" sample_fs ?sv "''{}''" "''{''"]
      sample_fs_menu
    by (simp add: arg_request_def)
qed

text \<open>
  C21: \<open>process_pdf\<close> answers 400 without a file name, 404 with the message
  \<open>File <name> not found\<close> when the path does not exist, and 500 with the exception
  when the pipeline raises; none of these changes the file system.
\<close>

theorem process_pdf_errors:
  "(req_args req ''pdf'' = None \<or> req_args req ''pdf'' = Some [] \<longrightarrow>
      process_pdf sv req s = ((ErrorMsg ''No PDF filename provided'', 400), s)) \<and>
   (req_args req ''pdf'' = Some fn \<and> fn \<noteq> [] \<and> \<not> os_path_exists s (os_path_join UPLOAD_FOLDER fn) \<longrightarrow>
      process_pdf sv req s = ((ErrorMsg (''File '' @ fn @ '' not found''), 404), s)) \<and>
   (req_args req ''pdf'' = Some fn \<and> fn \<noteq> [] \<and> os_path_exists s (os_path_join UPLOAD_FOLDER fn) \<and>
      menu_pipeline (svc_backend sv) s (os_path_join UPLOAD_FOLDER fn) (svc_generate sv) (svc_loads sv) = Inl e \<longrightarrow>
      process_pdf sv req s = ((ErrorExc e, 500), s))"
  by (auto simp: process_pdf_def Let_def save_menu_json_pipeline_error)

theorem process_pdf_errors_witness:
  "process_pdf sample_services (arg_request ''other.pdf'') sample_fs =
     ((ErrorMsg ''File other.pdf not found'', 404), sample_fs)"
proof -
  have "normpath ''./example_pdfs/other.pdf'' = ''example_pdfs/other.pdf''" by code_simp
  then have "\<not> os_path_exists sample_fs (os_path_join UPLOAD_FOLDER ''other.pdf'')"
    by (simp add: os_path_exists_def os_path_join_def UPLOAD_FOLDER_def sample_fs_def)
  then show ?thesis
    using process_pdf_errors [of "arg_request ''other.pdf''" sample_services sample_fs "''other.pdf''"]
    by (simp add: arg_request_def)
qed

text \<open>
  C22: a stored upload is not removed when processing fails: \<open>upload_pdf\<close> answers
  500 with the exception and the uploaded bytes stay in the upload folder.
\<close>

theorem upload_pdf_pipeline_error:
  assumes "req_files req ''pdf'' = Some f" and "filename f = Some fn" and "fn \<noteq> []"
    and "py_endswith fn ''.pdf''"
    and "fs_write s (os_path_join UPLOAD_FOLDER fn) (stream f) = Inr s1"
    and "menu_pipeline (svc_backend sv) s1 (os_path_join UPLOAD_FOLDER fn) (svc_generate sv) (svc_loads sv) = Inl e"
  shows "upload_pdf sv req s = Inr ((ErrorExc e, 500), s1) \<and>
         fs_read s1 (os_path_join UPLOAD_FOLDER fn) = Inr (stream f)"
  using assms fs_read_write_same [OF assms(5)]
  by (simp add: upload_pdf_def save_menu_json_pipeline_error)

theorem upload_pdf_pipeline_error_witness:
  "upload_pdf (sample_services\<lparr>svc_backend := text_backend\<lparr>plumber_pages := (\<lambda>d. Inl (PdfOpenError ''bad''))\<rparr>\<rparr>)
      (pdf_request (Some ''menu.pdf'') ''%PDF-1.4'') sample_fs =
     Inr ((ErrorExc (PdfOpenError ''bad''), 500), sample_fs) \<and>
   fs_read sample_fs (os_path_join UPLOAD_FOLDER ''menu.pdf'') = Inr ''%PDF-1.4''"
proof -
  let ?sv = "sample_services\<lparr>svc_backend := text_backend\<lparr>plumber_pages := (\<lambda>d. Inl (PdfOpenError ''bad''))\<rparr>\<rparr>"
  let ?f = "\<lparr>filename = Some ''menu.pdf'', stream = ''%PDF-1.4''\<rparr>"
  have n: "normpath ''./example_pdfs/menu.pdf'' = ''example_pdfs/menu.pdf''" by code_simp
  have k: "key_parent ''example_pdfs/menu.pdf'' = ''example_pdfs''" by code_simp
  have w: "fs_write sample_fs (os_path_join UPLOAD_FOLDER ''menu.pdf'') (stream ?f) = Inr sample_fs"
    using sample_fs_menu(2) n k by (simp add: fs_write_def sample_fs_def fun_upd_idem)
  have m: "menu_pipeline (svc_backend ?sv) sample_fs (os_path_join UPLOAD_FOLDER ''menu.pdf'')
             (svc_generate ?sv) (svc_loads ?sv) = Inl (PdfOpenError ''bad'')"
    using sample_fs_menu(2) sample_fs_read by (simp add: menu_pipeline_def extract_text_hybrid_def)
  have "py_endswith ''menu.pdf'' ''.pdf''" by (simp add: py_endswith_def)
  then show ?thesis
    using upload_pdf_pipeline_error [of "pdf_request (Some ''menu.pdf'') ''%PDF-1.4''" ?f "''menu.pdf''"
            sample_fs sample_fs ?sv "PdfOpenError ''bad''"] w m
    by (simp add: pdf_request_def)
qed

text \<open>
  The status codes the handlers answer with: 200, 400, 404 or 500 from
  \<open>process_pdf\<close>; 200, 400 or 500 from \<open>upload_pdf\<close> when its save does not raise.
\<close>

theorem handler_status:
  "snd (fst (process_pdf sv req s)) \<in> {200, 400, 404, 500} \<and>
   (upload_pdf sv req s = Inr (r, s') \<longrightarrow> snd r \<in> {200, 400, 500})"
proof
  show "snd (fst (process_pdf sv req s)) \<in> {200, 400, 404, 500}"
    using save_menu_json_status [of sv _ _ s]
    by (auto simp: process_pdf_def Let_def split: option.splits)
  show "upload_pdf sv req s = Inr (r, s') \<longrightarrow> snd r \<in> {200, 400, 500}"
  proof
    assume "upload_pdf sv req s = Inr (r, s')"
    then show "snd r \<in> {200, 400, 500}"
      using upload_pdf_cases save_menu_json_status by (metis fst_conv insert_iff)
  qed
qed

theorem handler_status_witness:
  "\<exists>r s'. upload_pdf sample_services (pdf_request (Some ''new.pdf'') ''d'') sample_fs = Inr (r, s') \<and>
     snd r \<in> {200, 400, 500} \<and>
     snd (fst (process_pdf sample_services (pdf_request (Some ''new.pdf'') ''d'') sample_fs)) \<in> {200, 400, 404, 500}"
proof -
  obtain r s' where u: "upload_pdf sample_services (pdf_request (Some ''new.pdf'') ''d'') sample_fs = Inr (r, s')"
    using sample_upload_new by blast
  then show ?thesis using handler_status [of sample_services "pdf_request (Some ''new.pdf'') ''d''" sample_fs r s'] by blast
qed

text \<open>
  The name of the JSON output is \<open>Path(name).with_suffix(".json")\<close>: the last
  suffix is replaced, directories are kept, a name that is only a suffix gains one, and
  a path with no name is refused with \<open>ValueError\<close>.
\<close>

lemma with_suffix_examples:
  "with_suffix ''menu.pdf'' ''.json'' = Inr ''menu.json'' \<and>
   with_suffix ''a//b/./menu.tar.pdf'' ''.json'' = Inr ''a/b/menu.tar.json'' \<and>
   with_suffix ''.pdf'' ''.json'' = Inr ''.pdf.json'' \<and>
   with_suffix ''notes'' ''.json'' = Inr ''notes.json'' \<and>
   with_suffix ''./'' ''.json'' = Inl (ValueError ''./'')"
  by (intro conjI) code_simp+

end
