(* ===== verification/JsonDecode.thy ===== *)
theory JsonDecode
  imports Prelude "HOL-Library.AList"
begin

text \<open>
  \<open>json.loads\<close> as CPython runs it on the model's reply (\<open>src/query_llm.py\<close>, line 76):
  the scanner of \<open>json.scanner\<close>/\<open>_json.c\<close> with the object and array parsers of
  \<open>json.decoder\<close>. A value is a \<open>json\<close>: \<open>None\<close>, a \<open>bool\<close>, an \<open>int\<close>, a \<open>float\<close>
  (kept as the text of its literal, \<open>NaN\<close> and \<open>Infinity\<close> included), a \<open>str\<close>, a \<open>list\<close>
  or a \<open>dict\<close> (an association list in insertion order). \<open>parse_value\<close>,
  \<open>parse_elems\<close> and \<open>parse_members\<close> are \<open>scan_once\<close>, \<open>JSONArray\<close> and \<open>JSONObject\<close>;
  each returns the value and the rest of the text, an exception, or \<open>None\<close> when its
  fuel is spent. Each call takes one unit of fuel, and \<open>json_fuel\<close> (twice the length
  of the text plus two) is always enough (\<open>parse_enough_all\<close>): every call that
  succeeds consumes text (\<open>parse_consumes_all\<close>), and more fuel never changes an answer
  (\<open>parse_mono_all\<close>). Duplicate keys behave as a \<open>dict\<close>: the last value is kept at
  the position of the first key (\<open>dict_of_pairs\<close>). A number with more than
  \<open>INT_MAX_STR_DIGITS\<close> digits raises \<open>ValueError\<close>, as \<open>int()\<close> does. Characters
  are Latin-1: a \<open>\u\<close> escape above \<open>\u00ff\<close> is refused with its own error.
\<close>

datatype json =
    JNull
  | JBool bool
  | JInt int
  | JFloat string
  | JStr string
  | JArr "json list"
  | JObj "(string \<times> json) list"

definition json_ws :: "char \<Rightarrow> bool" where
  "json_ws c \<longleftrightarrow> c = CHR '' '' \<or> c = CHR 0x09 \<or> c = CHR 0x0A \<or> c = CHR 0x0D"

abbreviation skip_ws :: "string \<Rightarrow> string" where
  "skip_ws s \<equiv> dropWhile json_ws s"

definition dec_err :: "string \<Rightarrow> pyexc" where
  "dec_err m = JSONDecodeError m"

definition hex_val :: "char \<Rightarrow> nat option" where
  "hex_val c =
     (let n = of_char c in
      if 48 \<le> n \<and> n \<le> 57 then Some (n - 48)
      else if 97 \<le> n \<and> n \<le> 102 then Some (n - 87)
      else if 65 \<le> n \<and> n \<le> 70 then Some (n - 55) else None)"

text \<open>The four hex digits of a \<open>\u\<close> escape. \<open>scanstring_unicode\<close> of
  \<open>_json.c\<close> asks for \<open>end = next + 4 < len\<close>, so at least one character must follow
  the digits: four digits that end the input are an invalid escape too.\<close>

definition hex4 :: "string \<Rightarrow> nat option" where
  "hex4 s =
     (if length s \<le> 4 then None
      else case those (map hex_val (take 4 s)) of
             None \<Rightarrow> None
           | Some ds \<Rightarrow> Some (foldl (\<lambda>a d. 16 * a + d) 0 ds))"

definition unescape :: "char \<Rightarrow> char option" where
  "unescape e =
     (if e = CHR 0x22 then Some (CHR 0x22) else if e = CHR 0x5C then Some (CHR 0x5C)
      else if e = CHR ''/'' then Some CHR ''/'' else if e = CHR ''b'' then Some (CHR 0x08)
      else if e = CHR ''f'' then Some (CHR 0x0C) else if e = CHR ''n'' then Some (CHR 0x0A)
      else if e = CHR ''r'' then Some (CHR 0x0D) else if e = CHR ''t'' then Some (CHR 0x09)
      else None)"

definition cons_res :: "char \<Rightarrow> pyexc + (string \<times> string) \<Rightarrow> pyexc + (string \<times> string)" where
  "cons_res c r = (case r of Inl e \<Rightarrow> Inl e | Inr (t, rest) \<Rightarrow> Inr (c # t, rest))"

fun scan_str :: "string \<Rightarrow> pyexc + (string \<times> string)" where
  "scan_str [] = Inl (dec_err ''Unterminated string starting at'')"
| "scan_str (c # cs) =
     (if c = CHR 0x22 then Inr ([], cs)
      else if c = CHR 0x5C then
        (case cs of
           [] \<Rightarrow> Inl (dec_err ''Unterminated string starting at'')
         | e # cs' \<Rightarrow>
             if e = CHR ''u'' then
               (case hex4 cs' of
                  None \<Rightarrow> Inl (dec_err (''Invalid '' @ [CHR 0x5C] @ ''uXXXX escape''))
                | Some n \<Rightarrow>
                    if n < 256 then cons_res (char_of n) (scan_str (drop 4 cs'))
                    else Inl (dec_err ''escape outside the character model''))
             else (case unescape e of
                     None \<Rightarrow> Inl (dec_err (''Invalid '' @ [CHR 0x5C] @ ''escape''))
                   | Some d \<Rightarrow> cons_res d (scan_str cs')))
      else if of_char c < (32::nat) then Inl (dec_err ''Invalid control character at'')
      else cons_res c (scan_str cs))"

definition INT_MAX_STR_DIGITS :: nat where
  "INT_MAX_STR_DIGITS = 4300"

definition int_limit_err :: pyexc where
  "int_limit_err = ValueError ''Exceeds the limit (4300 digits) for integer string conversion''"

text \<open>The three groups of \<open>NUMBER_RE\<close>, \<open>(-?(?:0|[1-9]\d*))(\.\d+)?([eE][-+]?\d+)?\<close>,
  each the prefix it matches of the text after the previous one.\<close>

definition int_part :: "string \<Rightarrow> string" where
  "int_part s = (if take 1 s = ''0'' then ''0'' else takeWhile is_digit s)"

definition frac_part :: "string \<Rightarrow> string" where
  "frac_part s =
     (if take 1 s = ''.'' \<and> takeWhile is_digit (drop 1 s) \<noteq> [] then ''.'' @ takeWhile is_digit (drop 1 s) else [])"

definition exp_part :: "string \<Rightarrow> string" where
  "exp_part s =
     (let sg = (if take 1 (drop 1 s) = ''+'' \<or> take 1 (drop 1 s) = ''-'' then take 1 (drop 1 s) else []);
          ds = takeWhile is_digit (drop (1 + length sg) s)
      in if (take 1 s = ''e'' \<or> take 1 s = ''E'') \<and> ds \<noteq> [] then take 1 s @ sg @ ds else [])"

definition scan_number :: "string \<Rightarrow> (pyexc + (json \<times> string)) option" where
  "scan_number s =
     (let neg = (take 1 s = ''-''); s1 = drop (if neg then 1 else 0) s;
          ip = int_part s1; r1 = drop (length ip) s1;
          frac = frac_part r1; r2 = drop (length frac) r1;
          ex = exp_part r2; rest = drop (length ex) r2
      in if ip = [] then None
         else if frac = [] \<and> ex = [] then
           Some (if INT_MAX_STR_DIGITS < length ip then Inl int_limit_err
                 else Inr (JInt ((if neg then -1 else 1) * int (digits_val ip)), rest))
         else Some (Inr (JFloat ((if neg then ''-'' else []) @ ip @ frac @ ex), rest)))"

definition dict_of_pairs :: "(string \<times> json) list \<Rightarrow> (string \<times> json) list" where
  "dict_of_pairs kvs = foldl (\<lambda>d (k, v). AList.update k v d) [] kvs"

type_synonym 'a presult = "(pyexc + ('a \<times> string)) option"

definition pmap :: "('a \<Rightarrow> 'b) \<Rightarrow> 'a presult \<Rightarrow> 'b presult" where
  "pmap f r = map_option (map_sum id (\<lambda>(v, rest). (f v, rest))) r"

definition expecting_value :: pyexc where
  "expecting_value = dec_err ''Expecting value''"

definition expecting_comma :: pyexc where
  "expecting_comma = dec_err ''Expecting ',' delimiter''"

fun parse_value :: "nat \<Rightarrow> string \<Rightarrow> json presult"
and parse_elems :: "nat \<Rightarrow> string \<Rightarrow> json list presult"
and parse_members :: "nat \<Rightarrow> string \<Rightarrow> (string \<times> json) list presult" where
  "parse_value 0 s = None"
| "parse_value (Suc f) s =
     (case s of
        [] \<Rightarrow> Some (Inl expecting_value)
      | c # cs \<Rightarrow>
          if c = CHR 0x22 then Some (map_sum id (\<lambda>(t, r). (JStr t, r)) (scan_str cs))
          else if c = CHR ''{'' then
            (if take 1 (skip_ws cs) = ''}'' then Some (Inr (JObj [], drop 1 (skip_ws cs)))
             else pmap (\<lambda>kvs. JObj (dict_of_pairs kvs)) (parse_members f (skip_ws cs)))
          else if c = CHR ''['' then
            (if take 1 (skip_ws cs) = '']'' then Some (Inr (JArr [], drop 1 (skip_ws cs)))
             else pmap JArr (parse_elems f (skip_ws cs)))
          else if take 4 s = ''null'' then Some (Inr (JNull, drop 4 s))
          else if take 4 s = ''true'' then Some (Inr (JBool True, drop 4 s))
          else if take 5 s = ''false'' then Some (Inr (JBool False, drop 5 s))
          else if take 3 s = ''NaN'' then Some (Inr (JFloat ''NaN'', drop 3 s))
          else if take 8 s = ''Infinity'' then Some (Inr (JFloat ''Infinity'', drop 8 s))
          else if take 9 s = ''-Infinity'' then Some (Inr (JFloat ''-Infinity'', drop 9 s))
          else (case scan_number s of None \<Rightarrow> Some (Inl expecting_value) | Some r \<Rightarrow> Some r))"
| "parse_elems 0 s = None"
| "parse_elems (Suc f) s =
     (case parse_value f s of
        None \<Rightarrow> None
      | Some (Inl e) \<Rightarrow> Some (Inl e)
      | Some (Inr (v, r)) \<Rightarrow>
          if take 1 (skip_ws r) = '']'' then Some (Inr ([v], drop 1 (skip_ws r)))
          else if take 1 (skip_ws r) = '','' then pmap (Cons v) (parse_elems f (skip_ws (drop 1 (skip_ws r))))
          else Some (Inl expecting_comma))"
| "parse_members 0 s = None"
| "parse_members (Suc f) s =
     (if take 1 s \<noteq> [CHR 0x22] then Some (Inl (dec_err ''Expecting property name enclosed in double quotes''))
      else case scan_str (drop 1 s) of
        Inl e \<Rightarrow> Some (Inl e)
      | Inr (k, r) \<Rightarrow>
          if take 1 (skip_ws r) \<noteq> '':'' then Some (Inl (dec_err ''Expecting ':' delimiter''))
          else case parse_value f (skip_ws (drop 1 (skip_ws r))) of
            None \<Rightarrow> None
          | Some (Inl e) \<Rightarrow> Some (Inl e)
          | Some (Inr (v, r2)) \<Rightarrow>
              if take 1 (skip_ws r2) = ''}'' then Some (Inr ([(k, v)], drop 1 (skip_ws r2)))
              else if take 1 (skip_ws r2) = '','' then
                pmap (Cons (k, v)) (parse_members f (skip_ws (drop 1 (skip_ws r2))))
              else Some (Inl expecting_comma))"

text \<open>The exceptions the decoder raises: the messages of \<open>json.decoder\<close> and the scanner,
  and the integer-size \<open>ValueError\<close>.\<close>

definition json_errors :: "pyexc list" where
  "json_errors =
     [dec_err ''Unterminated string starting at'', dec_err (''Invalid '' @ [CHR 0x5C] @ ''uXXXX escape''),
      dec_err ''escape outside the character model'', dec_err (''Invalid '' @ [CHR 0x5C] @ ''escape''),
      dec_err ''Invalid control character at'', int_limit_err, expecting_value, expecting_comma,
      dec_err ''Expecting property name enclosed in double quotes'', dec_err ''Expecting ':' delimiter'',
      dec_err ''Extra data'']"

definition json_fuel :: "string \<Rightarrow> nat" where
  "json_fuel s = 2 * length s + 2"

definition json_loads :: "string \<Rightarrow> pyexc + json" where
  "json_loads s =
     (let s0 = skip_ws s in
      case parse_value (json_fuel s0) s0 of
        None \<Rightarrow> Inl (dec_err ''recursion'')
      | Some (Inl e) \<Rightarrow> Inl e
      | Some (Inr (v, r)) \<Rightarrow> if skip_ws r = [] then Inr v else Inl (dec_err ''Extra data''))"

text \<open>The values \<open>json.loads\<close> can return: object keys are distinct (a \<open>dict\<close>) and
  every integer has at most \<open>INT_MAX_STR_DIGITS\<close> digits.\<close>

fun json_wf :: "json \<Rightarrow> bool"
and items_wf :: "json list \<Rightarrow> bool"
and members_wf :: "(string \<times> json) list \<Rightarrow> bool" where
  "json_wf (JInt i) \<longleftrightarrow> length (str_nat (nat \<bar>i\<bar>)) \<le> INT_MAX_STR_DIGITS"
| "json_wf (JArr vs) \<longleftrightarrow> items_wf vs"
| "json_wf (JObj ms) \<longleftrightarrow> distinct (map fst ms) \<and> members_wf ms"
| "json_wf JNull \<longleftrightarrow> True"
| "json_wf (JBool b) \<longleftrightarrow> True"
| "json_wf (JFloat x) \<longleftrightarrow> True"
| "json_wf (JStr t) \<longleftrightarrow> True"
| "items_wf [] \<longleftrightarrow> True"
| "items_wf (v # vs) \<longleftrightarrow> json_wf v \<and> items_wf vs"
| "members_wf [] \<longleftrightarrow> True"
| "members_wf (m # ms) \<longleftrightarrow> json_wf (snd m) \<and> members_wf ms"

subsection \<open>Predicates of the proofs\<close>

definition consumes :: "'a presult \<Rightarrow> string \<Rightarrow> bool" where
  "consumes x s \<longleftrightarrow> (\<forall>v r. x = Some (Inr (v, r)) \<longrightarrow> length r < length s)"

definition fuel_le :: "'a option \<Rightarrow> 'a option \<Rightarrow> bool" where
  "fuel_le a b \<longleftrightarrow> a = None \<or> b = a"

definition wf_res :: "'a presult \<Rightarrow> ('a \<Rightarrow> bool) \<Rightarrow> bool" where
  "wf_res x P \<longleftrightarrow> (\<forall>v r. x = Some (Inr (v, r)) \<longrightarrow> P v) \<and> (\<forall>e. x = Some (Inl e) \<longrightarrow> e \<in> set json_errors)"

lemmas parse_simps = parse_value.simps parse_elems.simps parse_members.simps

subsection \<open>Consumption\<close>

lemma skip_ws_length: "length (skip_ws s) \<le> length s"
  by (simp add: length_dropWhile_le)

lemma cons_res_Inr: "cons_res c r = Inr (t, rest) \<longleftrightarrow> (\<exists>t'. r = Inr (t', rest) \<and> t = c # t')"
  by (auto simp: cons_res_def split: sum.splits)

lemma scan_str_consumes: "scan_str s = Inr (t, r) \<Longrightarrow> length r < length s"
proof (induction s arbitrary: t rule: scan_str.induct)
  case 1
  then show ?case by simp
next
  case (2 c cs)
  show ?case
  proof (cases "c = CHR 0x22 \<or> c = CHR 0x5C")
    case True
    with 2 show ?thesis
      by (auto simp: cons_res_Inr split: list.splits if_splits option.splits)
         (fastforce+)
  next
    case False
    with 2 show ?thesis by (auto simp: cons_res_Inr split: if_splits)
  qed
qed

lemma int_part_prefix: "length (int_part s) \<le> length s"
  by (cases s) (auto simp: int_part_def length_takeWhile_le)

lemma scan_number_consumes:
  assumes "scan_number s = Some (Inr (v, r))"
  shows "length r < length s"
proof -
  let ?s1 = "drop (if take 1 s = ''-'' then 1 else 0) s"
  have ne: "int_part ?s1 \<noteq> []" using assms by (auto simp: scan_number_def Let_def)
  then have "0 < length (int_part ?s1)" "length (int_part ?s1) \<le> length ?s1"
    using int_part_prefix [of ?s1] by auto
  moreover have "s \<noteq> []" using ne by (auto simp: int_part_def)
  ultimately show ?thesis using assms unfolding scan_number_def Let_def
    by (auto split: if_splits)
qed

lemma map_sum_pair_Inr:
  "map_sum id (\<lambda>(v, y). (g v, y)) z = Inr (w, r) \<longleftrightarrow> (\<exists>u. z = Inr (u, r) \<and> w = g u)"
  by (cases z) auto

lemma pmap_Inr: "pmap g x = Some (Inr (w, r)) \<longleftrightarrow> (\<exists>u. x = Some (Inr (u, r)) \<and> w = g u)"
  by (cases x) (auto simp: pmap_def map_sum_pair_Inr)

lemma pmap_None [simp]: "pmap g x = None \<longleftrightarrow> x = None"
  by (simp add: pmap_def)

lemma pmap_ex [simp]: "(\<exists>y. pmap g x = Some y) \<longleftrightarrow> (\<exists>y. x = Some y)"
  by (simp add: pmap_def)

lemma map_sum_JStr_Inr:
  "map_sum id (\<lambda>(t, y). (JStr t, y)) x = Inr (v, r) \<longleftrightarrow> (\<exists>t. x = Inr (t, r) \<and> v = JStr t)"
  by (cases x) auto

lemma skip_ws_drop_length [simp]:
  "length (skip_ws x) \<le> length x" "length (drop n (skip_ws x)) \<le> length x"
  using skip_ws_length [of x] by auto

lemma consumesD: "consumes x s \<Longrightarrow> x = Some (Inr (v, r)) \<Longrightarrow> length r < length s"
  by (simp add: consumes_def)

lemma consumes_Inl [simp]: "consumes (Some (Inl e)) s"
  and consumes_None [simp]: "consumes None s"
  by (simp_all add: consumes_def)

lemma consumes_drop: "0 < k \<Longrightarrow> s \<noteq> [] \<Longrightarrow> consumes (Some (Inr (v, drop k s))) s"
  by (simp add: consumes_def)

lemma consumes_pmap: "consumes x s' \<Longrightarrow> length s' < length s \<Longrightarrow> consumes (pmap g x) s"
  by (auto simp: consumes_def pmap_Inr)

lemma parse_value_consumes_Suc:
  assumes IH: "\<And>s. consumes (parse_elems f s) s" "\<And>s. consumes (parse_members f s) s"
  shows "consumes (parse_value (Suc f) s) s"
proof (cases s)
  case Nil
  then show ?thesis by simp
next
  case (Cons c cs)
  have l: "length (skip_ws cs) < length s" "length (drop 1 (skip_ws cs)) < length s"
    using Cons skip_ws_drop_length [where x = cs] by (auto simp del: skip_ws_drop_length)
  have str: "consumes (Some (map_sum id (\<lambda>(t, r). (JStr t, r)) (scan_str cs))) s"
    using Cons scan_str_consumes by (fastforce simp: consumes_def map_sum_JStr_Inr)
  have num: "consumes (case scan_number s of None \<Rightarrow> Some (Inl expecting_value) | Some r \<Rightarrow> Some r) s"
    using scan_number_consumes by (auto simp: consumes_def split: option.splits)
  have obj: "consumes (pmap (\<lambda>kvs. JObj (dict_of_pairs kvs)) (parse_members f (skip_ws cs))) s"
    using consumes_pmap [OF IH(2) l(1)] .
  have arr: "consumes (pmap JArr (parse_elems f (skip_ws cs))) s"
    using consumes_pmap [OF IH(1) l(1)] .
  have e: "consumes (Some (Inr (v, drop 1 (skip_ws cs)))) s" for v :: json
    using l(2) by (simp add: consumes_def)
  have k: "consumes (Some (Inr (v, drop k s))) s" if "0 < k" for v :: json and k
    using that Cons by (simp add: consumes_drop)
  show ?thesis
    unfolding Cons parse_value.simps list.case
    using str num obj arr e k [of 4] k [of 5] k [of 3] k [of 8] k [of 9] Cons
    by (simp only: if_split_asm split: if_split) simp
qed

lemma consumesI:
  "(\<And>v r. x = Some (Inr (v, r)) \<Longrightarrow> length r < length s) \<Longrightarrow> consumes x s"
  by (simp add: consumes_def)

lemma parse_elems_consumes_Suc:
  assumes IH: "\<And>s. consumes (parse_value f s) s" "\<And>s. consumes (parse_elems f s) s"
  shows "consumes (parse_elems (Suc f) s) s"
proof (rule consumesI)
  fix vs r assume h: "parse_elems (Suc f) s = Some (Inr (vs, r))"
  then obtain v r0 where v: "parse_value f s = Some (Inr (v, r0))"
    by (auto split: option.splits sum.splits)
  have r0: "length r0 < length s" using consumesD [OF IH(1) v] .
  show "length r < length s"
  proof (cases "take 1 (skip_ws r0) = '']''")
    case True
    with h v have "r = drop 1 (skip_ws r0)" by simp
    with r0 show ?thesis using skip_ws_drop_length(2) [of 1 r0] by (metis le_less_trans)
  next
    case False
    with h v have c: "take 1 (skip_ws r0) = '',''"
      and p: "pmap (Cons v) (parse_elems f (skip_ws (drop 1 (skip_ws r0)))) = Some (Inr (vs, r))"
      by (auto split: if_splits)
    from p obtain u where "parse_elems f (skip_ws (drop 1 (skip_ws r0))) = Some (Inr (u, r))"
      by (auto simp: pmap_Inr)
    then have "length r < length (skip_ws (drop 1 (skip_ws r0)))" by (rule consumesD [OF IH(2)])
    with r0 show ?thesis
      using skip_ws_drop_length(1) [of "drop 1 (skip_ws r0)"] skip_ws_drop_length(2) [of 1 r0] by linarith
  qed
qed

lemma parse_members_consumes_Suc:
  assumes IH: "\<And>s. consumes (parse_value f s) s" "\<And>s. consumes (parse_members f s) s"
  shows "consumes (parse_members (Suc f) s) s"
proof (rule consumesI)
  fix ms r assume h: "parse_members (Suc f) s = Some (Inr (ms, r))"
  then have q: "take 1 s = [CHR 0x22]" by (auto split: if_splits)
  with h obtain k r1 where k: "scan_str (drop 1 s) = Inr (k, r1)"
    by (auto split: sum.splits)
  have r1: "length r1 < length s" using scan_str_consumes [OF k] by simp
  from h q k have col: "take 1 (skip_ws r1) = '':''" by (auto split: if_splits)
  with h q k obtain v r2 where v: "parse_value f (skip_ws (drop 1 (skip_ws r1))) = Some (Inr (v, r2))"
    by (auto split: option.splits sum.splits)
  have r2: "length r2 < length s"
    using consumesD [OF IH(1) v] r1 skip_ws_drop_length(1) [of "drop 1 (skip_ws r1)"]
      skip_ws_drop_length(2) [of 1 r1] by linarith
  show "length r < length s"
  proof (cases "take 1 (skip_ws r2) = ''}''")
    case True
    with h q k col v have "r = drop 1 (skip_ws r2)" by simp
    with r2 show ?thesis using skip_ws_drop_length(2) [of 1 r2] by (metis le_less_trans)
  next
    case False
    with h q k col v have "pmap (Cons (k, v)) (parse_members f (skip_ws (drop 1 (skip_ws r2)))) = Some (Inr (ms, r))"
      by (auto split: if_splits)
    then obtain u where "parse_members f (skip_ws (drop 1 (skip_ws r2))) = Some (Inr (u, r))"
      by (auto simp: pmap_Inr)
    then have "length r < length (skip_ws (drop 1 (skip_ws r2)))" by (rule consumesD [OF IH(2)])
    with r2 show ?thesis
      using skip_ws_drop_length(1) [of "drop 1 (skip_ws r2)"] skip_ws_drop_length(2) [of 1 r2] by linarith
  qed
qed

lemma parse_consumes_all:
  "consumes (parse_value f s) s \<and> consumes (parse_elems f s) s \<and> consumes (parse_members f s) s"
proof (induction f arbitrary: s)
  case 0
  then show ?case by simp
next
  case (Suc f)
  then show ?case
    using parse_value_consumes_Suc parse_elems_consumes_Suc parse_members_consumes_Suc by blast
qed

lemmas parse_value_consumes = consumesD [OF parse_consumes_all [THEN conjunct1]]
lemmas parse_elems_consumes = consumesD [OF parse_consumes_all [THEN conjunct2, THEN conjunct1]]
lemmas parse_members_consumes = consumesD [OF parse_consumes_all [THEN conjunct2, THEN conjunct2]]

subsection \<open>Enough fuel\<close>

lemma parse_value_enough_Suc:
  assumes IH: "\<And>s. 2 * length s + 3 \<le> f \<Longrightarrow> parse_elems f s \<noteq> None"
              "\<And>s. 2 * length s + 3 \<le> f \<Longrightarrow> parse_members f s \<noteq> None"
    and fuel: "2 * length s + 2 \<le> Suc f"
  shows "parse_value (Suc f) s \<noteq> None"
proof (cases s)
  case Nil
  then show ?thesis by simp
next
  case (Cons c cs)
  have "2 * length cs + 3 \<le> f" using fuel Cons by simp
  then have "2 * length (skip_ws cs) + 3 \<le> f" using skip_ws_length [of cs] by linarith
  then have "parse_elems f (skip_ws cs) \<noteq> None" "parse_members f (skip_ws cs) \<noteq> None"
    using IH by auto
  then show ?thesis
    unfolding Cons parse_value.simps list.case
    by (simp split: if_split option.split)
qed

lemma parse_elems_enough_Suc:
  assumes IH: "\<And>s. 2 * length s + 2 \<le> f \<Longrightarrow> parse_value f s \<noteq> None"
              "\<And>s. 2 * length s + 3 \<le> f \<Longrightarrow> parse_elems f s \<noteq> None"
    and fuel: "2 * length s + 3 \<le> Suc f"
  shows "parse_elems (Suc f) s \<noteq> None"
proof -
  obtain x where v: "parse_value f s = Some x" using IH(1) fuel by fastforce
  show ?thesis
  proof (cases x)
    case (Inl e)
    with v show ?thesis by simp
  next
    case (Inr p)
    obtain v r0 where p: "p = (v, r0)" by fastforce
    have "length r0 < length s" using parse_value_consumes v Inr p by blast
    then have "2 * length (skip_ws (drop 1 (skip_ws r0))) + 3 \<le> f"
      using fuel skip_ws_drop_length(1) [of "drop 1 (skip_ws r0)"] skip_ws_drop_length(2) [of 1 r0] by linarith
    then have "parse_elems f (skip_ws (drop 1 (skip_ws r0))) \<noteq> None" by (rule IH(2))
    with v Inr p show ?thesis by (simp add: pmap_def)
  qed
qed

lemma parse_members_enough_Suc:
  assumes IH: "\<And>s. 2 * length s + 2 \<le> f \<Longrightarrow> parse_value f s \<noteq> None"
              "\<And>s. 2 * length s + 3 \<le> f \<Longrightarrow> parse_members f s \<noteq> None"
    and fuel: "2 * length s + 3 \<le> Suc f"
  shows "parse_members (Suc f) s \<noteq> None"
proof (cases "take 1 s \<noteq> [CHR 0x22]")
  case True
  then show ?thesis by simp
next
  case False
  show ?thesis
  proof (cases "scan_str (drop 1 s)")
    case (Inl e)
    with False show ?thesis by simp
  next
    case (Inr p)
    obtain k r1 where p: "p = (k, r1)" by fastforce
    have r1: "length r1 < length s" using scan_str_consumes Inr p by fastforce
    show ?thesis
    proof (cases "take 1 (skip_ws r1) \<noteq> '':''")
      case True
      with False Inr p show ?thesis by simp
    next
      case col: False
      let ?x = "skip_ws (drop 1 (skip_ws r1))"
      have "2 * length ?x + 2 \<le> f"
        using fuel r1 skip_ws_drop_length(1) [of "drop 1 (skip_ws r1)"] skip_ws_drop_length(2) [of 1 r1] by linarith
      then obtain y where v: "parse_value f ?x = Some y" using IH(1) by fastforce
      show ?thesis
      proof (cases y)
        case (Inl e)
        with False Inr p col v show ?thesis by simp
      next
        case (Inr q)
        obtain w r2 where q: "q = (w, r2)" by fastforce
        have "length r2 < length ?x" using parse_value_consumes v Inr q by blast
        then have "2 * length (skip_ws (drop 1 (skip_ws r2))) + 3 \<le> f"
          using \<open>2 * length ?x + 2 \<le> f\<close> skip_ws_drop_length(1) [of "drop 1 (skip_ws r2)"]
            skip_ws_drop_length(2) [of 1 r2] by linarith
        then have "parse_members f (skip_ws (drop 1 (skip_ws r2))) \<noteq> None" by (rule IH(2))
        with False \<open>scan_str (drop 1 s) = Inr p\<close> p col v Inr q show ?thesis by (simp add: pmap_def)
      qed
    qed
  qed
qed

lemma parse_enough_all:
  "(2 * length s + 2 \<le> f \<longrightarrow> parse_value f s \<noteq> None) \<and>
   (2 * length s + 3 \<le> f \<longrightarrow> parse_elems f s \<noteq> None) \<and>
   (2 * length s + 3 \<le> f \<longrightarrow> parse_members f s \<noteq> None)"
proof (induction f arbitrary: s)
  case 0
  then show ?case by simp
next
  case (Suc f)
  then show ?case
    using parse_value_enough_Suc [of f s] parse_elems_enough_Suc [of f s] parse_members_enough_Suc [of f s]
    by blast
qed

subsection \<open>More fuel changes nothing\<close>

lemma fuel_le_refl [simp]: "fuel_le a a" and fuel_le_None [simp]: "fuel_le None b"
  by (simp_all add: fuel_le_def)

lemma fuel_le_pmap: "fuel_le x y \<Longrightarrow> fuel_le (pmap g x) (pmap g y)"
  by (auto simp: fuel_le_def)

lemma parse_value_mono_Suc:
  assumes IH: "\<And>s. fuel_le (parse_elems f s) (parse_elems (Suc f) s)"
              "\<And>s. fuel_le (parse_members f s) (parse_members (Suc f) s)"
  shows "fuel_le (parse_value (Suc f) s) (parse_value (Suc (Suc f)) s)"
proof (cases s)
  case Nil
  then show ?thesis by simp
next
  case (Cons c cs)
  have "fuel_le (pmap JArr (parse_elems f (skip_ws cs))) (pmap JArr (parse_elems (Suc f) (skip_ws cs)))"
    "fuel_le (pmap (\<lambda>kvs. JObj (dict_of_pairs kvs)) (parse_members f (skip_ws cs)))
             (pmap (\<lambda>kvs. JObj (dict_of_pairs kvs)) (parse_members (Suc f) (skip_ws cs)))"
    by (rule fuel_le_pmap [OF IH(1)], rule fuel_le_pmap [OF IH(2)])
  then show ?thesis
    unfolding Cons parse_value.simps(2) list.case
    by (simp del: parse_elems.simps parse_members.simps split: if_split)
qed

lemma parse_elems_mono_Suc:
  assumes IH: "\<And>s. fuel_le (parse_value f s) (parse_value (Suc f) s)"
              "\<And>s. fuel_le (parse_elems f s) (parse_elems (Suc f) s)"
  shows "fuel_le (parse_elems (Suc f) s) (parse_elems (Suc (Suc f)) s)"
proof (cases "parse_value f s")
  case None
  then show ?thesis by simp
next
  case (Some x)
  then have v: "parse_value (Suc f) s = Some x" using IH(1) [of s] by (simp add: fuel_le_def)
  show ?thesis
  proof (cases x)
    case (Inl e)
    with Some v show ?thesis by simp
  next
    case (Inr p)
    obtain w r where "p = (w, r)" by fastforce
    note e = parse_elems.simps(2) [of f s] parse_elems.simps(2) [of "Suc f" s]
    show ?thesis unfolding e
      using Some v Inr IH(2) \<open>p = (w, r)\<close> by (simp add: fuel_le_pmap del: parse_elems.simps)
  qed
qed

lemma parse_members_mono_Suc:
  assumes IH: "\<And>s. fuel_le (parse_value f s) (parse_value (Suc f) s)"
              "\<And>s. fuel_le (parse_members f s) (parse_members (Suc f) s)"
  shows "fuel_le (parse_members (Suc f) s) (parse_members (Suc (Suc f)) s)"
proof -
  note e = parse_members.simps(2) [of f s] parse_members.simps(2) [of "Suc f" s]
  note d = parse_members.simps parse_value.simps
  show ?thesis
  proof (cases "take 1 s \<noteq> [CHR 0x22]")
    case False
    show ?thesis
    proof (cases "scan_str (drop 1 s)")
      case (Inr p)
      obtain k r1 where p: "p = (k, r1)" by fastforce
      let ?x = "skip_ws (drop 1 (skip_ws r1))"
      show ?thesis
      proof (cases "parse_value f ?x")
        case (Some y)
        then have v: "parse_value (Suc f) ?x = Some y" using IH(1) [of ?x] by (simp add: fuel_le_def)
        show ?thesis
        proof (cases y)
          case (Inr q)
          obtain w r2 where "q = (w, r2)" by fastforce
          then show ?thesis unfolding e
            using False \<open>scan_str (drop 1 s) = Inr p\<close> p Some v Inr
            by (simp add: fuel_le_pmap [OF IH(2)] del: d)
        next
          case (Inl err)
          then show ?thesis unfolding e using False \<open>scan_str (drop 1 s) = Inr p\<close> p Some v by (simp del: d)
        qed
      next
        case None
        then show ?thesis unfolding e using False Inr p by (simp del: d)
      qed
    next
      case (Inl err)
      then show ?thesis unfolding e using False by (simp del: d)
    qed
  next
    case True
    then show ?thesis unfolding e by (simp del: d)
  qed
qed

lemma parse_mono_all:
  "fuel_le (parse_value f s) (parse_value (Suc f) s) \<and>
   fuel_le (parse_elems f s) (parse_elems (Suc f) s) \<and>
   fuel_le (parse_members f s) (parse_members (Suc f) s)"
proof (induction f arbitrary: s)
  case 0
  then show ?case by simp
next
  case (Suc f)
  then show ?case
    using parse_value_mono_Suc [of f s] parse_elems_mono_Suc [of f s] parse_members_mono_Suc [of f s]
    by blast
qed

lemma parse_value_mono_add: "parse_value f s = Some x \<Longrightarrow> parse_value (f + k) s = Some x"
proof (induction k)
  case (Suc k)
  then show ?case using parse_mono_all [of "f + k" s]
    by (simp add: fuel_le_def del: parse_value.simps parse_elems.simps parse_members.simps)
qed simp

lemma parse_value_mono: "parse_value f s = Some x \<Longrightarrow> f \<le> f' \<Longrightarrow> parse_value f' s = Some x"
  using parse_value_mono_add [of f s x "f' - f"] by (simp del: parse_value.simps)

lemma parse_value_fuel:
  assumes "parse_value f s = Some x"
  shows "parse_value (json_fuel s) s = Some x"
proof (cases "f \<le> json_fuel s")
  case True
  with assms show ?thesis by (rule parse_value_mono)
next
  case False
  have "parse_value (json_fuel s) s \<noteq> None"
    using parse_enough_all [of s "json_fuel s"] by (simp add: json_fuel_def del: parse_value.simps)
  then obtain y where y: "parse_value (json_fuel s) s = Some y" by blast
  have "json_fuel s \<le> f" using False by simp
  with y have "parse_value f s = Some y" by (rule parse_value_mono)
  with assms y show ?thesis by (simp del: parse_value.simps)
qed

subsection \<open>Decoded values are well formed\<close>

lemma digits_val_snoc: "digits_val (ds @ [c]) = 10 * digits_val ds + (of_char c - 48)"
  by (simp add: digits_val_def)

lemma digits_val_less: "list_all is_digit ds \<Longrightarrow> digits_val ds < 10 ^ length ds"
proof (induction ds rule: rev_induct)
  case Nil
  then show ?case by (simp add: digits_val_def)
next
  case (snoc c ds)
  then have "48 \<le> (of_char c :: nat) \<and> (of_char c :: nat) \<le> 57" by (simp add: is_digit_def Let_def)
  then have "of_char c - 48 < (10::nat)" by linarith
  with snoc show ?case by (simp add: digits_val_snoc)
qed

lemma str_nat_length_le: "n < 10 ^ k \<Longrightarrow> 0 < k \<Longrightarrow> length (str_nat n) \<le> k"
proof (induction n arbitrary: k rule: str_nat.induct)
  case (1 n)
  show ?case
  proof (cases "n < 10")
    case True
    with 1 show ?thesis by (subst str_nat.simps) simp
  next
    case False
    then obtain k' where k: "k = Suc k'" using 1 by (cases k) auto
    with False 1(2) have "0 < k'" by (cases k') auto
    moreover have "n div 10 < 10 ^ k'" using 1(2) k by simp
    ultimately have "length (str_nat (n div 10)) \<le> k'" using 1(1) False by blast
    with False k show ?thesis by (subst str_nat.simps) simp
  qed
qed

lemma int_part_digits: "list_all is_digit (int_part s)"
  by (auto simp: int_part_def is_digit_def list_all_iff dest: set_takeWhileD)

lemma scan_number_wf: "scan_number s = Some (Inr (v, r)) \<Longrightarrow> json_wf v"
proof -
  let ?ip = "int_part (drop (if take 1 s = ''-'' then 1 else 0) s)"
  assume h: "scan_number s = Some (Inr (v, r))"
  have "length (str_nat (digits_val ?ip)) \<le> length ?ip" if "?ip \<noteq> []"
    using str_nat_length_le [OF digits_val_less [OF int_part_digits]] that by simp
  then show "json_wf v"
    using h unfolding scan_number_def Let_def by (auto split: if_splits simp: nat_abs_mult_distrib)
qed

lemma wf_res_simps [simp]:
  "wf_res None P" "wf_res (Some (Inl e)) P \<longleftrightarrow> e \<in> set json_errors" "wf_res (Some (Inr (v, r))) P \<longleftrightarrow> P v"
  by (auto simp: wf_res_def)

lemma json_errors_mem [simp]:
  "expecting_value \<in> set json_errors" "expecting_comma \<in> set json_errors" "int_limit_err \<in> set json_errors"
  "dec_err ''Expecting property name enclosed in double quotes'' \<in> set json_errors"
  "dec_err ''Expecting ':' delimiter'' \<in> set json_errors" "dec_err ''Extra data'' \<in> set json_errors"
  by (simp_all add: json_errors_def)

lemma scan_str_errors: "scan_str s = Inl e \<Longrightarrow> e \<in> set json_errors"
proof (induction s rule: scan_str.induct)
  case (2 c cs)
  then show ?case
    by (auto simp: json_errors_def cons_res_def split: if_splits list.splits option.splits sum.splits)
qed (simp add: json_errors_def)

lemma scan_number_errors: "scan_number s = Some (Inl e) \<Longrightarrow> e \<in> set json_errors"
  by (auto simp: scan_number_def Let_def json_errors_def split: if_splits)

lemma wf_res_pmap: "wf_res x P \<Longrightarrow> (\<And>u. P u \<Longrightarrow> Q (g u)) \<Longrightarrow> wf_res (pmap g x) Q"
proof (cases x)
  case (Some z)
  assume "wf_res x P" "\<And>u. P u \<Longrightarrow> Q (g u)"
  with Some show ?thesis by (cases z) (auto simp: pmap_def)
qed (simp add: pmap_def)

lemma members_wf_update: "members_wf d \<Longrightarrow> json_wf v \<Longrightarrow> members_wf (AList.update k v d)"
  by (induction d) auto

lemma dict_of_pairs_wf_gen:
  "distinct (map fst d) \<Longrightarrow> members_wf d \<Longrightarrow> members_wf kvs \<Longrightarrow>
   json_wf (JObj (foldl (\<lambda>d (k, v). AList.update k v d) d kvs))"
proof (induction kvs arbitrary: d)
  case Nil
  then show ?case by simp
next
  case (Cons m kvs)
  then show ?case
    by (cases m) (simp add: distinct_update members_wf_update)
qed

lemma dict_of_pairs_wf: "members_wf kvs \<Longrightarrow> json_wf (JObj (dict_of_pairs kvs))"
  unfolding dict_of_pairs_def by (rule dict_of_pairs_wf_gen) simp_all

lemma parse_value_wf_Suc:
  assumes IH: "\<And>s. wf_res (parse_elems f s) items_wf" "\<And>s. wf_res (parse_members f s) members_wf"
  shows "wf_res (parse_value (Suc f) s) json_wf"
proof (cases s)
  case Nil
  then show ?thesis by simp
next
  case (Cons c cs)
  have str: "wf_res (Some (map_sum id (\<lambda>(t, r). (JStr t, r)) (scan_str cs))) json_wf"
    using scan_str_errors by (cases "scan_str cs") (auto simp: wf_res_def)
  have num: "wf_res (case scan_number s of None \<Rightarrow> Some (Inl expecting_value) | Some r \<Rightarrow> Some r) json_wf"
    using scan_number_wf scan_number_errors by (auto simp: wf_res_def split: option.splits)
  have obj: "wf_res (pmap (\<lambda>kvs. JObj (dict_of_pairs kvs)) (parse_members f (skip_ws cs))) json_wf"
    using IH(2) dict_of_pairs_wf by (rule wf_res_pmap)
  have arr: "wf_res (pmap JArr (parse_elems f (skip_ws cs))) json_wf"
    using IH(1) by (rule wf_res_pmap) simp
  show ?thesis
    unfolding Cons parse_value.simps(2) list.case
    using str num obj arr Cons
    by (simp del: parse_elems.simps parse_members.simps split: if_split)
qed

lemma parse_elems_wf_Suc:
  assumes IH: "\<And>s. wf_res (parse_value f s) json_wf" "\<And>s. wf_res (parse_elems f s) items_wf"
  shows "wf_res (parse_elems (Suc f) s) items_wf"
proof (cases "parse_value f s")
  case (Some x)
  show ?thesis
  proof (cases x)
    case (Inr p)
    obtain v r where p: "p = (v, r)" by fastforce
    have "json_wf v" using IH(1) [of s] Some Inr p by simp
    then have "wf_res (pmap (Cons v) (parse_elems f (skip_ws (drop 1 (skip_ws r))))) items_wf"
      using IH(2) by (intro wf_res_pmap) simp_all
    then show ?thesis
      unfolding parse_elems.simps(2) [of f s] using Some Inr p \<open>json_wf v\<close>
      by (simp del: parse_elems.simps parse_value.simps)
  qed (use Some IH(1) [of s] in \<open>simp add: parse_elems.simps(2) [of f s] del: parse_elems.simps parse_value.simps\<close>)
qed simp

lemma parse_members_wf_Suc:
  assumes IH: "\<And>s. wf_res (parse_value f s) json_wf" "\<And>s. wf_res (parse_members f s) members_wf"
  shows "wf_res (parse_members (Suc f) s) members_wf"
proof -
  have "wf_res (case parse_value f x of None \<Rightarrow> None | Some (Inl e) \<Rightarrow> Some (Inl e)
          | Some (Inr (v, r2)) \<Rightarrow>
              if take 1 (skip_ws r2) = ''}'' then Some (Inr ([(k, v)], drop 1 (skip_ws r2)))
              else if take 1 (skip_ws r2) = '','' then
                pmap (Cons (k, v)) (parse_members f (skip_ws (drop 1 (skip_ws r2))))
              else Some (Inl expecting_comma)) members_wf" for x k
  proof (cases "parse_value f x")
    case (Some y)
    show ?thesis
    proof (cases y)
      case (Inr p)
      obtain v r where p: "p = (v, r)" by fastforce
      have "json_wf v" using IH(1) [of x] Some Inr p by simp
      then have "wf_res (pmap (Cons (k, v)) (parse_members f (skip_ws (drop 1 (skip_ws r))))) members_wf"
        using IH(2) by (intro wf_res_pmap) simp_all
      then show ?thesis using Some Inr p \<open>json_wf v\<close> by (simp del: parse_members.simps parse_value.simps)
    qed (use Some IH(1) [of x] in \<open>simp del: parse_members.simps parse_value.simps\<close>)
  qed simp
  then show ?thesis
    unfolding parse_members.simps(2) [of f s] using scan_str_errors
    by (simp del: parse_members.simps parse_value.simps split: sum.split)
qed

lemma parse_wf_all:
  "wf_res (parse_value f s) json_wf \<and> wf_res (parse_elems f s) items_wf \<and> wf_res (parse_members f s) members_wf"
proof (induction f arbitrary: s)
  case 0
  then show ?case by simp
next
  case (Suc f)
  then show ?case using parse_value_wf_Suc parse_elems_wf_Suc parse_members_wf_Suc by blast
qed

subsection \<open>Monotonicity of the three parsers\<close>

lemma fuel_le_trans: "fuel_le a b \<Longrightarrow> fuel_le b c \<Longrightarrow> fuel_le a c"
  by (auto simp: fuel_le_def)

lemma parse_mono_add_all:
  "fuel_le (parse_value f s) (parse_value (f + k) s) \<and>
   fuel_le (parse_elems f s) (parse_elems (f + k) s) \<and>
   fuel_le (parse_members f s) (parse_members (f + k) s)"
proof (induction k arbitrary: s)
  case (Suc k)
  have "f + Suc k = Suc (f + k)" by simp
  then show ?case
    using Suc [of s] parse_mono_all [of "f + k" s] fuel_le_trans by metis
qed simp

lemma fuel_le_Some: "fuel_le a b \<Longrightarrow> a = Some x \<Longrightarrow> b = Some x"
  by (simp add: fuel_le_def)

lemma parse_elems_mono: "parse_elems f s = Some x \<Longrightarrow> f \<le> f' \<Longrightarrow> parse_elems f' s = Some x"
  using parse_mono_add_all [of f s "f' - f"] fuel_le_Some [of "parse_elems f s"] by simp

lemma parse_members_mono: "parse_members f s = Some x \<Longrightarrow> f \<le> f' \<Longrightarrow> parse_members f' s = Some x"
  using parse_mono_add_all [of f s "f' - f"] fuel_le_Some [of "parse_members f s"] by simp

subsection \<open>Numbers\<close>

lemma is_digit_not_lead:
  "is_digit c \<Longrightarrow> c \<noteq> CHR 0x22 \<and> c \<noteq> CHR ''{'' \<and> c \<noteq> CHR ''['' \<and> c \<noteq> CHR ''n'' \<and>
     c \<noteq> CHR ''t'' \<and> c \<noteq> CHR ''f'' \<and> c \<noteq> CHR ''N'' \<and> c \<noteq> CHR ''I'' \<and> c \<noteq> CHR ''-''"
  by (auto simp: is_digit_def)

lemma parse_value_digit:
  "is_digit c \<Longrightarrow> parse_value (Suc f) (c # cs) =
     (case scan_number (c # cs) of None \<Rightarrow> Some (Inl expecting_value) | Some r \<Rightarrow> Some r)"
  using is_digit_not_lead [of c] by (simp del: parse_elems.simps parse_members.simps)

lemma parse_value_minus_digit:
  "is_digit c \<Longrightarrow> parse_value (Suc f) (CHR ''-'' # c # cs) =
     (case scan_number (CHR ''-'' # c # cs) of None \<Rightarrow> Some (Inl expecting_value) | Some r \<Rightarrow> Some r)"
  using is_digit_not_lead [of c] by (simp del: parse_elems.simps parse_members.simps)

lemma int_part_digits_all: "list_all is_digit ds \<Longrightarrow> take 1 ds \<noteq> ''0'' \<Longrightarrow> int_part ds = ds"
  by (simp add: int_part_def list_all_iff)

lemma json_loads_wf: "json_loads s = Inr v \<Longrightarrow> json_wf v"
  using parse_wf_all [of "json_fuel (skip_ws s)" "skip_ws s"]
  by (auto simp: json_loads_def Let_def wf_res_def split: option.splits sum.splits if_splits simp del: parse_simps)

subsection \<open>Properties of the decoder\<close>

text \<open>
  C6: the decoder terminates: with the fuel \<open>json_fuel s\<close> the parser returns an
  answer (a value with the rest of the text, or an exception) on every text \<open>s\<close>.
\<close>

theorem parse_value_terminates: "\<exists>x. parse_value (json_fuel s) s = Some x"
  using parse_enough_all [of s "json_fuel s"] by (auto simp: json_fuel_def simp del: parse_simps)

text \<open>
  Every exception \<open>json.loads\<close> raises is one of the decoder's: a
  \<open>JSONDecodeError\<close> of the scanner or the parsers, or the integer-size \<open>ValueError\<close>;
  running out of fuel is not among them.
\<close>

lemma json_loads_errors: "json_loads s = Inl e \<Longrightarrow> e \<in> set json_errors"
proof -
  have "parse_value (json_fuel (skip_ws s)) (skip_ws s) \<noteq> None"
    using parse_enough_all [of "skip_ws s" "json_fuel (skip_ws s)"] by (simp add: json_fuel_def del: parse_simps)
  moreover assume "json_loads s = Inl e"
  ultimately show ?thesis using parse_wf_all [of "json_fuel (skip_ws s)" "skip_ws s"]
    by (auto simp: json_loads_def Let_def wf_res_def split: option.splits sum.splits if_splits simp del: parse_simps)
qed

text \<open>
  C26: a reply that is a run of more than 4300 digits (not starting with \<open>0\<close>) is
  refused with the \<open>ValueError\<close> of \<open>int()\<close>, not decoded.
\<close>

theorem json_loads_int_limit:
  assumes "list_all is_digit ds" "take 1 ds \<noteq> ''0''" "INT_MAX_STR_DIGITS < length ds"
  shows "json_loads ds = Inl int_limit_err"
proof -
  obtain c cs where ds: "ds = c # cs" "is_digit c" using assms(1,3) by (cases ds) (auto simp: INT_MAX_STR_DIGITS_def)
  have "\<not> json_ws c" using ds(2) by (auto simp: json_ws_def is_digit_def)
  then have "skip_ws ds = ds" by (simp add: ds(1))
  moreover have "scan_number ds = Some (Inl int_limit_err)"
    using int_part_digits_all [OF assms(1,2)] assms(3) ds
    by (simp add: scan_number_def Let_def frac_part_def exp_part_def is_digit_not_lead)
  moreover have "json_fuel ds = Suc (2 * length ds + 1)" by (simp add: json_fuel_def)
  ultimately show ?thesis
    using parse_value_digit [OF ds(2), of "2 * length ds + 1" cs] ds(1)
    by (simp add: json_loads_def del: parse_simps)
qed

theorem json_loads_int_limit_witness:
  "json_loads (replicate 4301 (CHR ''1'')) = Inl int_limit_err"
  by (rule json_loads_int_limit) (simp_all add: list_all_iff is_digit_def INT_MAX_STR_DIGITS_def)

text \<open>
  Decoding examples: duplicate keys keep the last value at the first key's
  place; white space around a value is skipped; \<open>-0\<close> is the integer 0 and a
  fraction or exponent makes a float; \<open>01\<close> leaves extra data; a trailing comma, a
  missing colon and a raw newline in a string are errors; \<open>\u00e9\<close> decodes and
  \<open>\u2019\<close> lies outside the character model.
\<close>

lemma json_loads_examples:
  \<open>json_loads (''{"a": [1, 2], "b": {}, "a": 5, "c": -Infinity}'') =
     Inr (JObj [(''a'', JInt 5), (''b'', JObj []), (''c'', JFloat ''-Infinity'')]) \<and>
   json_loads '' [true, null, "x", -0, 1.5e3] '' =
     Inr (JArr [JBool True, JNull, JStr ''x'', JInt 0, JFloat ''1.5e3'']) \<and>
   json_loads ''01'' = Inl (dec_err ''Extra data'') \<and>
   json_loads ''[1,]'' = Inl expecting_value \<and>
   json_loads ''{"a" 1}'' = Inl (dec_err ''Expecting ':' delimiter'') \<and>
   json_loads ([CHR 0x22, CHR 0x0A, CHR 0x22]) = Inl (dec_err ''Invalid control character at'') \<and>
   json_loads ([CHR 0x22, CHR 0x5C] @ ''u00e9'' @ [CHR 0x22]) = Inr (JStr [CHR 0xE9]) \<and>
   json_loads ([CHR 0x22, CHR 0x5C] @ ''u2019'' @ [CHR 0x22]) = Inl (dec_err ''escape outside the character model'')\<close>
  by (intro conjI) code_simp+

end
