(* ===== verification/JsonEncode.thy ===== *)
theory JsonEncode
  imports JsonDecode
begin

text \<open>
  \<open>json.dump(menu_json, json_file, indent=2)\<close> (\<open>src/menu_api.py\<close>, lines 47 and
  76). With an indent, CPython encodes in pure Python (\<open>json.encoder._make_iterencode\<close>)
  and \<open>json.dump\<close> writes each chunk the generator yields as soon as it is yielded, so
  an exception raised inside the value leaves the chunks before it in the file.
  \<open>enc\<close>, \<open>enc_items\<close> and \<open>enc_members\<close> are \<open>_iterencode\<close>, \<open>_iterencode_list\<close>
  and \<open>_iterencode_dict\<close>: the chunk list, in which an \<open>Inl\<close> is the exception
  raised while producing that chunk; \<open>write_chunks\<close> is the loop of \<open>json.dump\<close>.
  Strings are escaped as with \<open>ensure_ascii\<close> (\<open>esc_out\<close>), integers printed by
  \<open>int.__repr__\<close> with its 4300-digit limit (\<open>int_repr\<close>); the repr of a float is
  the parameter \<open>fr\<close>.

  The main theorem is the round trip: for every well-formed value without floats the
  dump succeeds and \<open>json.loads\<close> reads the text back to the same value
  (\<open>json_roundtrip\<close>). Its proof parses the encoder's output piece by piece
  (\<open>parse_enc\<close>, by induction over the value, its items and its members).
\<close>

definition hex_digit :: "nat \<Rightarrow> char" where
  "hex_digit n = char_of (if n < 10 then 48 + n else 87 + n)"

definition esc_out :: "char \<Rightarrow> string" where
  "esc_out c =
     (let n = of_char c :: nat in
      if c = CHR 0x5C then [CHR 0x5C, CHR 0x5C]
      else if c = CHR 0x22 then [CHR 0x5C, CHR 0x22]
      else if c = CHR 0x08 then [CHR 0x5C, CHR ''b'']
      else if c = CHR 0x0C then [CHR 0x5C, CHR ''f'']
      else if c = CHR 0x0A then [CHR 0x5C, CHR ''n'']
      else if c = CHR 0x0D then [CHR 0x5C, CHR ''r'']
      else if c = CHR 0x09 then [CHR 0x5C, CHR ''t'']
      else if n < 32 \<or> 126 < n then [CHR 0x5C, CHR ''u'', CHR ''0'', CHR ''0'', hex_digit (n div 16), hex_digit (n mod 16)]
      else [c])"

definition encode_str :: "string \<Rightarrow> string" where
  "encode_str t = [CHR 0x22] @ concat (map esc_out t) @ [CHR 0x22]"

definition nl_indent :: "nat \<Rightarrow> string" where
  "nl_indent lvl = CHR 0x0A # replicate (2 * lvl) CHR '' ''"

definition int_repr :: "int \<Rightarrow> pyexc + string" where
  "int_repr i =
     (let ds = str_nat (nat \<bar>i\<bar>) in
      if INT_MAX_STR_DIGITS < length ds then Inl int_limit_err
      else Inr ((if i < 0 then ''-'' else []) @ ds))"

fun is_container :: "json \<Rightarrow> bool" where
  "is_container (JArr _) = True"
| "is_container (JObj _) = True"
| "is_container _ = False"

fun prim :: "(string \<Rightarrow> string) \<Rightarrow> json \<Rightarrow> pyexc + string" where
  "prim fr JNull = Inr ''null''"
| "prim fr (JBool b) = Inr (if b then ''true'' else ''false'')"
| "prim fr (JInt i) = int_repr i"
| "prim fr (JFloat x) = Inr (fr x)"
| "prim fr (JStr t) = Inr (encode_str t)"
| "prim fr (JArr _) = Inr []"
| "prim fr (JObj _) = Inr []"

fun enc :: "(string \<Rightarrow> string) \<Rightarrow> nat \<Rightarrow> json \<Rightarrow> (pyexc + string) list"
and enc_items :: "(string \<Rightarrow> string) \<Rightarrow> nat \<Rightarrow> bool \<Rightarrow> json list \<Rightarrow> (pyexc + string) list"
and enc_members :: "(string \<Rightarrow> string) \<Rightarrow> nat \<Rightarrow> bool \<Rightarrow> (string \<times> json) list \<Rightarrow> (pyexc + string) list" where
  "enc fr lvl (JArr []) = [Inr ''[]'']"
| "enc fr lvl (JArr (v # vs)) = enc_items fr (Suc lvl) True (v # vs) @ [Inr (nl_indent lvl), Inr '']'']"
| "enc fr lvl (JObj []) = [Inr ''{}'']"
| "enc fr lvl (JObj (m # ms)) =
     [Inr ''{'', Inr (nl_indent (Suc lvl))] @ enc_members fr (Suc lvl) True (m # ms) @ [Inr (nl_indent lvl), Inr ''}'']"
| "enc fr lvl JNull = [prim fr JNull]"
| "enc fr lvl (JBool b) = [prim fr (JBool b)]"
| "enc fr lvl (JInt i) = [prim fr (JInt i)]"
| "enc fr lvl (JFloat x) = [prim fr (JFloat x)]"
| "enc fr lvl (JStr t) = [prim fr (JStr t)]"
| "enc_items fr lvl first [] = []"
| "enc_items fr lvl first (v # vs) =
     (let buf = (if first then ''['' else '','') @ nl_indent lvl in
      (if is_container v then Inr buf # enc fr lvl v else [map_sum id (\<lambda>t. buf @ t) (prim fr v)]))
     @ enc_items fr lvl False vs"
| "enc_members fr lvl first [] = []"
| "enc_members fr lvl first (m # ms) =
     (if first then [] else [Inr ('','' @ nl_indent lvl)]) @
     [Inr (encode_str (fst m)), Inr '': ''] @
     (if is_container (snd m) then enc fr lvl (snd m) else [prim fr (snd m)]) @
     enc_members fr lvl False ms"

fun write_chunks :: "(pyexc + string) list \<Rightarrow> string \<times> pyexc option" where
  "write_chunks [] = ([], None)"
| "write_chunks (Inl e # cs) = ([], Some e)"
| "write_chunks (Inr t # cs) = (let (w, e) = write_chunks cs in (t @ w, e))"

definition json_dump :: "(string \<Rightarrow> string) \<Rightarrow> json \<Rightarrow> string \<times> pyexc option" where
  "json_dump fr v = write_chunks (enc fr 0 v)"

fun float_free :: "json \<Rightarrow> bool"
and items_float_free :: "json list \<Rightarrow> bool"
and members_float_free :: "(string \<times> json) list \<Rightarrow> bool" where
  "float_free (JFloat x) \<longleftrightarrow> False"
| "float_free (JArr vs) \<longleftrightarrow> items_float_free vs"
| "float_free (JObj ms) \<longleftrightarrow> members_float_free ms"
| "float_free JNull \<longleftrightarrow> True"
| "float_free (JBool b) \<longleftrightarrow> True"
| "float_free (JInt i) \<longleftrightarrow> True"
| "float_free (JStr t) \<longleftrightarrow> True"
| "items_float_free [] \<longleftrightarrow> True"
| "items_float_free (v # vs) \<longleftrightarrow> float_free v \<and> items_float_free vs"
| "members_float_free [] \<longleftrightarrow> True"
| "members_float_free (m # ms) \<longleftrightarrow> float_free (snd m) \<and> members_float_free ms"

subsection \<open>Predicates of the proofs\<close>

definition stop :: "string \<Rightarrow> bool" where
  "stop r = (case r of [] \<Rightarrow> True | c # _ \<Rightarrow> c = CHR '','' \<or> c = CHR 0x0A)"

definition chunks_ok :: "(pyexc + string) list \<Rightarrow> bool" where
  "chunks_ok cs \<longleftrightarrow> list_all (\<lambda>c. \<not> isl c) cs"

definition chunks_text :: "(pyexc + string) list \<Rightarrow> string" where
  "chunks_text cs = concat (map projr cs)"

definition lead_ok :: "string \<Rightarrow> bool" where
  "lead_ok t = (case t of [] \<Rightarrow> False | c # _ \<Rightarrow> \<not> json_ws c \<and> c \<noteq> CHR '']'' \<and> c \<noteq> CHR ''}'')"

subsection \<open>Strings\<close>

lemma of_char_less_256: "(of_char c :: nat) < 256"
  by (metis of_char_mod_256 mod_less_divisor zero_less_numeral)

lemma hex_val_hex_digit: "d < 16 \<Longrightarrow> hex_val (hex_digit d) = Some d"
  by (auto simp: hex_val_def hex_digit_def Let_def)

lemma hex_val_0: "hex_val (CHR ''0'') = Some 0"
  by (simp add: hex_val_def)

lemma hex4_esc: "n < 256 \<Longrightarrow> s \<noteq> [] \<Longrightarrow>
  hex4 (CHR ''0'' # CHR ''0'' # hex_digit (n div 16) # hex_digit (n mod 16) # s) = Some n"
proof -
  assume "n < 256" "s \<noteq> []"
  then have "n div 16 < 16" "n mod 16 < 16" by simp_all
  then show ?thesis
    using \<open>s \<noteq> []\<close> by (simp add: hex4_def hex_val_hex_digit hex_val_0)
qed

lemma esc_out_special:
  "esc_out (CHR 0x5C) = [CHR 0x5C, CHR 0x5C]" "esc_out (CHR 0x22) = [CHR 0x5C, CHR 0x22]"
  "esc_out (CHR 0x08) = [CHR 0x5C, CHR ''b'']" "esc_out (CHR 0x0C) = [CHR 0x5C, CHR ''f'']"
  "esc_out (CHR 0x0A) = [CHR 0x5C, CHR ''n'']" "esc_out (CHR 0x0D) = [CHR 0x5C, CHR ''r'']"
  "esc_out (CHR 0x09) = [CHR 0x5C, CHR ''t'']"
  by (simp_all add: esc_out_def)

lemma scan_str_short_esc:
  "unescape e = Some d \<Longrightarrow> e \<noteq> CHR ''u'' \<Longrightarrow> scan_str (CHR 0x5C # e # s) = cons_res d (scan_str s)"
  by simp

lemma scan_str_esc_out:
  assumes "s \<noteq> []"
  shows "scan_str (esc_out c @ s) = cons_res c (scan_str s)"
proof -
  let ?n = "of_char c :: nat"
  consider "c = CHR 0x5C" | "c = CHR 0x22" | "c = CHR 0x08" | "c = CHR 0x0C" | "c = CHR 0x0A"
    | "c = CHR 0x0D" | "c = CHR 0x09"
    | (other) "c \<noteq> CHR 0x5C" "c \<noteq> CHR 0x22" "c \<noteq> CHR 0x08" "c \<noteq> CHR 0x0C" "c \<noteq> CHR 0x0A"
      "c \<noteq> CHR 0x0D" "c \<noteq> CHR 0x09"
    by blast
  then show ?thesis
  proof cases
    case other
    show ?thesis
    proof (cases "?n < 32 \<or> 126 < ?n")
      case True
      then have "esc_out c = [CHR 0x5C, CHR ''u'', CHR ''0'', CHR ''0'', hex_digit (?n div 16), hex_digit (?n mod 16)]"
        using other by (simp add: esc_out_def Let_def)
      moreover have "hex4 (CHR ''0'' # CHR ''0'' # hex_digit (?n div 16) # hex_digit (?n mod 16) # s) = Some ?n"
        by (rule hex4_esc [OF of_char_less_256 assms])
      ultimately show ?thesis using of_char_less_256 [of c] by simp
    next
      case False
      then have "esc_out c = [c]" using other by (simp add: esc_out_def Let_def)
      then show ?thesis using other False by simp
    qed
  qed (simp_all only: esc_out_special, simp_all add: unescape_def)
qed

lemma scan_str_encode: "scan_str (concat (map esc_out t) @ CHR 0x22 # r) = Inr (t, r)"
  by (induction t) (simp_all add: scan_str_esc_out cons_res_def)

subsection \<open>Integers\<close>

lemma stop_cases: "stop r \<Longrightarrow> r = [] \<or> (\<exists>r'. r = CHR '','' # r') \<or> (\<exists>r'. r = CHR 0x0A # r')"
  by (cases r) (auto simp: stop_def)

lemma digit_char_0_iff: "d < 10 \<Longrightarrow> digit_char d = CHR ''0'' \<longleftrightarrow> d = 0"
proof
  assume "d < 10" "digit_char d = CHR ''0''"
  then have "of_char (digit_char d) = (of_char (CHR ''0'') :: nat)" by simp
  with \<open>d < 10\<close> show "d = 0" by (simp add: digit_char_def of_char_char_of_small)
next
  assume "d = 0"
  have "of_char (digit_char 0) = (of_char (CHR ''0'') :: nat)" by (simp add: digit_char_def)
  then show "digit_char d = CHR ''0''" using \<open>d = 0\<close> by (metis char_of_char)
qed

lemma str_nat_0: "str_nat 0 = ''0''"
  using digit_char_0_iff [of 0] by (simp add: str_nat.simps)

lemma str_nat_lead: "0 < n \<Longrightarrow> take 1 (str_nat n) \<noteq> ''0''"
proof (induction n rule: str_nat.induct)
  case (1 n)
  show ?case
  proof (cases "n < 10")
    case True
    with 1 digit_char_0_iff [of n] show ?thesis by (simp add: str_nat.simps)
  next
    case False
    then have "0 < n div 10" by simp
    then have "take 1 (str_nat (n div 10)) \<noteq> ''0''" using 1 False by simp
    moreover obtain d ds where "str_nat (n div 10) = d # ds"
      using str_nat_nonempty [of "n div 10"] by (cases "str_nat (n div 10)") auto
    ultimately show ?thesis using False by (subst str_nat.simps) simp
  qed
qed

lemma str_nat_Cons: "\<exists>d ds. str_nat n = d # ds \<and> is_digit d \<and> list_all is_digit ds"
  using str_nat_nonempty [of n] str_nat_digits [of n] by (cases "str_nat n") auto

lemma stop_no_digit: "stop r \<Longrightarrow> takeWhile is_digit r = []"
  by (auto dest!: stop_cases simp: is_digit_def)

lemma int_part_str_nat: "stop r \<Longrightarrow> int_part (str_nat n @ r) = str_nat n"
proof (cases "n = 0")
  case True
  then show ?thesis by (simp add: int_part_def str_nat_0)
next
  case False
  assume r: "stop r"
  obtain d ds where dds: "str_nat n = d # ds" using str_nat_Cons by blast
  have "takeWhile is_digit (str_nat n @ r) = str_nat n"
    using str_nat_digits [of n] stop_no_digit [OF r] by (simp add: list_all_iff)
  then show ?thesis using str_nat_lead [of n] False dds by (simp add: int_part_def)
qed

lemma frac_exp_stop: "stop r \<Longrightarrow> frac_part r = [] \<and> exp_part r = []"
  by (auto dest!: stop_cases simp: frac_part_def exp_part_def)

lemma int_repr_Inr:
  "int_repr i = Inr t \<longleftrightarrow> json_wf (JInt i) \<and> t = (if i < 0 then ''-'' else []) @ str_nat (nat \<bar>i\<bar>)"
  by (auto simp: int_repr_def Let_def)

lemma str_nat_not_minus: "take 1 (str_nat n @ r) \<noteq> ''-''"
proof -
  obtain d ds where "str_nat n = d # ds" "is_digit d" using str_nat_Cons by blast
  then show ?thesis by (auto simp: is_digit_def)
qed

lemma scan_number_nat:
  assumes "stop r" "length (str_nat n) \<le> INT_MAX_STR_DIGITS"
  shows "scan_number (str_nat n @ r) = Some (Inr (JInt (int n), r))"
proof -
  have ip: "int_part (str_nat n @ r) = str_nat n" using assms(1) by (rule int_part_str_nat)
  have fe: "frac_part r = []" "exp_part r = []" using frac_exp_stop [OF assms(1)] by simp_all
  show ?thesis
    unfolding scan_number_def Let_def
    using str_nat_not_minus [of n r] ip fe str_nat_nonempty [of n] assms(2)
    by (simp add: digits_val_str_nat)
qed

lemma scan_number_neg:
  assumes "stop r" "length (str_nat n) \<le> INT_MAX_STR_DIGITS"
  shows "scan_number (CHR ''-'' # str_nat n @ r) = Some (Inr (JInt (- int n), r))"
proof -
  have ip: "int_part (str_nat n @ r) = str_nat n" using assms(1) by (rule int_part_str_nat)
  have fe: "frac_part r = []" "exp_part r = []" using frac_exp_stop [OF assms(1)] by simp_all
  show ?thesis
    unfolding scan_number_def Let_def
    using ip fe str_nat_nonempty [of n] assms(2)
    by (simp add: digits_val_str_nat)
qed

lemma parse_value_int:
  assumes "json_wf (JInt i)" "stop r"
  shows "parse_value (Suc f) (projr (int_repr i) @ r) = Some (Inr (JInt i, r))"
proof -
  obtain d ds where dds: "str_nat (nat \<bar>i\<bar>) = d # ds" "is_digit d" using str_nat_Cons by blast
  have len: "length (str_nat (nat \<bar>i\<bar>)) \<le> INT_MAX_STR_DIGITS" using assms(1) by simp
  show ?thesis
  proof (cases "i < 0")
    case True
    then have "projr (int_repr i) @ r = CHR ''-'' # str_nat (nat \<bar>i\<bar>) @ r"
      using len by (simp add: int_repr_def Let_def)
    then show ?thesis
      using scan_number_neg [OF assms(2) len] parse_value_minus_digit [OF dds(2), of f] dds(1) True
        is_digit_not_lead [OF dds(2)]
      by (simp del: parse_value.simps)
  next
    case False
    then have "projr (int_repr i) @ r = str_nat (nat \<bar>i\<bar>) @ r"
      using len by (simp add: int_repr_def Let_def)
    then show ?thesis
      using scan_number_nat [OF assms(2) len] parse_value_digit [OF dds(2), of f] dds(1) False
      by (simp del: parse_value.simps)
  qed
qed

subsection \<open>Encoder output\<close>

lemma chunks_ok_simps [simp]:
  "chunks_ok []" "chunks_ok (Inr t # cs) \<longleftrightarrow> chunks_ok cs" "\<not> chunks_ok (Inl e # cs)"
  "chunks_ok (xs @ ys) \<longleftrightarrow> chunks_ok xs \<and> chunks_ok ys"
  by (simp_all add: chunks_ok_def)

lemma chunks_text_simps [simp]:
  "chunks_text [] = []" "chunks_text (c # cs) = projr c @ chunks_text cs"
  "chunks_text (xs @ ys) = chunks_text xs @ chunks_text ys"
  by (simp_all add: chunks_text_def)

lemma write_chunks_ok: "chunks_ok cs \<Longrightarrow> write_chunks cs = (chunks_text cs, None)"
proof (induction cs)
  case (Cons c cs)
  then show ?case by (cases c) simp_all
qed simp

lemma enc_prim: "\<not> is_container v \<Longrightarrow> enc fr lvl v = [prim fr v]"
  by (cases v) simp_all

lemma prim_ok: "json_wf v \<Longrightarrow> \<exists>t. prim fr v = Inr t"
  by (cases v) (auto simp: int_repr_def Let_def)

lemma enc_ok:
  "json_wf v \<Longrightarrow> chunks_ok (enc fr lvl v)"
  "items_wf vs \<Longrightarrow> chunks_ok (enc_items fr lvl b vs)"
  "members_wf ms \<Longrightarrow> chunks_ok (enc_members fr lvl b ms)"
proof (induction fr lvl v and fr lvl b vs and fr lvl b ms rule: enc_enc_items_enc_members.induct)
  case (7 fr lvl i)
  then show ?case by (simp add: int_repr_def Let_def)
next
  case (11 fr lvl first v vs)
  then show ?case using prim_ok [of v fr] by (auto simp: Let_def)
next
  case (13 fr lvl first m ms)
  then show ?case using prim_ok [of "snd m" fr] by auto
qed simp_all

lemma items_text_Cons:
  "json_wf v \<Longrightarrow> chunks_text (enc_items fr lvl b (v # vs)) =
     ((if b then ''['' else '','') @ nl_indent lvl) @ chunks_text (enc fr lvl v) @ chunks_text (enc_items fr lvl False vs)"
proof (cases "is_container v")
  case False
  assume "json_wf v"
  then obtain t where "prim fr v = Inr t" using prim_ok by blast
  with False show ?thesis by (simp add: enc_prim Let_def)
qed (simp add: Let_def)

lemma members_text_Cons:
  "chunks_text (enc_members fr lvl b (m # ms)) =
     (if b then [] else '','' @ nl_indent lvl) @ encode_str (fst m) @ '': '' @
     chunks_text (enc fr lvl (snd m)) @ chunks_text (enc_members fr lvl False ms)"
  by (cases "is_container (snd m)") (simp_all add: enc_prim)

lemma skip_ws_lead: "lead_ok t \<Longrightarrow> skip_ws (t @ r) = t @ r"
  by (cases t) (simp_all add: lead_ok_def)

lemma skip_ws_replicate: "skip_ws (replicate n CHR '' '' @ x) = skip_ws x"
  by (induction n) (simp_all add: json_ws_def)

lemma skip_ws_nl: "skip_ws (nl_indent k @ x) = skip_ws x"
  by (simp add: nl_indent_def json_ws_def skip_ws_replicate)

lemma lead_ok_not_close: "lead_ok t \<Longrightarrow> take 1 (t @ r) \<noteq> '']'' \<and> take 1 (t @ r) \<noteq> ''}''"
  by (cases t) (simp_all add: lead_ok_def)

lemma enc_lead:
  assumes "json_wf v" "float_free v"
  shows "lead_ok (chunks_text (enc fr lvl v))"
proof (cases v)
  case (JInt i)
  obtain d ds where "str_nat (nat \<bar>i\<bar>) = d # ds" "is_digit d" using str_nat_Cons by blast
  with JInt assms show ?thesis
    by (auto simp: int_repr_def lead_ok_def json_ws_def is_digit_def)
next
  case (JArr vs)
  show ?thesis
  proof (cases vs)
    case (Cons a list)
    then have "json_wf a" using assms JArr by simp
    then show ?thesis using JArr Cons
      by (simp add: lead_ok_def json_ws_def items_text_Cons del: enc_items.simps)
  qed (simp add: JArr lead_ok_def json_ws_def)
next
  case (JObj ms)
  then show ?thesis
    by (cases ms) (simp_all add: lead_ok_def json_ws_def)
qed (use assms in \<open>simp_all add: lead_ok_def json_ws_def encode_str_def\<close>)

lemma update_fresh: "k \<notin> set (map fst d) \<Longrightarrow> AList.update k v d = d @ [(k, v)]"
  by (induction d) auto

lemma foldl_update_distinct:
  "distinct (map fst (d @ kvs)) \<Longrightarrow> foldl (\<lambda>d (k, v). AList.update k v d) d kvs = d @ kvs"
proof (induction kvs arbitrary: d)
  case (Cons m kvs)
  obtain k v where m: "m = (k, v)" by fastforce
  with Cons.prems have "AList.update k v d = d @ [(k, v)]" by (simp add: update_fresh)
  with Cons m show ?case by simp
qed simp

lemma dict_of_pairs_distinct: "distinct (map fst kvs) \<Longrightarrow> dict_of_pairs kvs = kvs"
  using foldl_update_distinct [of "[]" kvs] by (simp add: dict_of_pairs_def)

lemma parse_elems_last:
  "parse_value f s = Some (Inr (v, x)) \<Longrightarrow> skip_ws x = CHR '']'' # r \<Longrightarrow>
   parse_elems (Suc f) s = Some (Inr ([v], r))"
  unfolding parse_elems.simps(2) [of f s] by (simp del: parse_simps)

lemma parse_elems_more:
  "parse_value f s = Some (Inr (v, CHR '','' # x)) \<Longrightarrow> parse_elems f (skip_ws x) = Some (Inr (vs, r)) \<Longrightarrow>
   parse_elems (Suc f) s = Some (Inr (v # vs, r))"
  unfolding parse_elems.simps(2) [of f s] by (simp add: json_ws_def pmap_def del: parse_simps)

lemma parse_members_last:
  "take 1 s = [CHR 0x22] \<Longrightarrow> scan_str (drop 1 s) = Inr (k, CHR '':'' # y) \<Longrightarrow>
   parse_value f (skip_ws y) = Some (Inr (v, x)) \<Longrightarrow> skip_ws x = CHR ''}'' # r \<Longrightarrow>
   parse_members (Suc f) s = Some (Inr ([(k, v)], r))"
  unfolding parse_members.simps(2) [of f s] by (simp add: json_ws_def del: parse_simps)

lemma parse_members_more:
  "take 1 s = [CHR 0x22] \<Longrightarrow> scan_str (drop 1 s) = Inr (k, CHR '':'' # y) \<Longrightarrow>
   parse_value f (skip_ws y) = Some (Inr (v, CHR '','' # x)) \<Longrightarrow> parse_members f (skip_ws x) = Some (Inr (ms, r)) \<Longrightarrow>
   parse_members (Suc f) s = Some (Inr ((k, v) # ms, r))"
  unfolding parse_members.simps(2) [of f s] by (simp add: json_ws_def pmap_def del: parse_simps)

lemma fuel_join_elems:
  "parse_value f1 s = Some x \<Longrightarrow> parse_elems f2 s' = Some y \<Longrightarrow>
   \<exists>f. parse_value f s = Some x \<and> parse_elems f s' = Some y"
  using parse_value_mono [of f1 s x "max f1 f2"] parse_elems_mono [of f2 s' y "max f1 f2"] by auto

lemma fuel_join_members:
  "parse_value f1 s = Some x \<Longrightarrow> parse_members f2 s' = Some y \<Longrightarrow>
   \<exists>f. parse_value f s = Some x \<and> parse_members f s' = Some y"
  using parse_value_mono [of f1 s x "max f1 f2"] parse_members_mono [of f2 s' y "max f1 f2"] by auto

lemma stop_nl: "stop (nl_indent k @ x)" and stop_comma: "stop (CHR '','' # x)"
  by (simp_all add: stop_def nl_indent_def)

lemma skip_ws_nl_lead: "lead_ok t \<Longrightarrow> skip_ws (nl_indent k @ t @ r) = t @ r"
  by (simp add: skip_ws_nl skip_ws_lead)

lemma skip_ws_encode_str: "skip_ws (encode_str t @ r) = encode_str t @ r"
  by (simp add: encode_str_def json_ws_def)

lemma parse_value_open_arr:
  "skip_ws cs = X \<Longrightarrow> take 1 X \<noteq> '']'' \<Longrightarrow> parse_value (Suc f) (CHR ''['' # cs) = pmap JArr (parse_elems f X)"
  by (simp del: parse_elems.simps)

lemma parse_value_open_obj:
  "skip_ws cs = X \<Longrightarrow> take 1 X \<noteq> ''}'' \<Longrightarrow>
   parse_value (Suc f) (CHR ''{'' # cs) = pmap (\<lambda>kvs. JObj (dict_of_pairs kvs)) (parse_members f X)"
  by (simp del: parse_members.simps)

lemma parse_enc:
  "json_wf v \<Longrightarrow> float_free v \<Longrightarrow> stop r \<Longrightarrow>
     \<exists>f. parse_value f (chunks_text (enc fr lvl v) @ r) = Some (Inr (v, r))"
  "items_wf vs \<Longrightarrow> items_float_free vs \<Longrightarrow> vs \<noteq> [] \<Longrightarrow>
     \<exists>f. parse_elems f (chunks_text (enc fr lvl (hd vs)) @ chunks_text (enc_items fr lvl False (tl vs)) @
       nl_indent k @ '']'' @ r) = Some (Inr (vs, r))"
  "members_wf ms \<Longrightarrow> members_float_free ms \<Longrightarrow> ms \<noteq> [] \<Longrightarrow>
     \<exists>f. parse_members f (encode_str (fst (hd ms)) @ '': '' @ chunks_text (enc fr lvl (snd (hd ms))) @
       chunks_text (enc_members fr lvl False (tl ms)) @ nl_indent k @ ''}'' @ r) = Some (Inr (ms, r))"
proof (induction v and vs and ms arbitrary: lvl r and lvl k r and lvl k r
       rule: json_wf_items_wf_members_wf.induct)
  case (1 i)
  have "parse_value (Suc 0) (projr (int_repr i) @ r) = Some (Inr (JInt i, r))"
    using 1 by (intro parse_value_int) simp_all
  then show ?case by (intro exI [of _ "Suc 0"]) simp
next
  case (2 vs)
  show ?case
  proof (cases vs)
    case Nil
    then show ?thesis by (intro exI [of _ "Suc 0"]) (simp add: json_ws_def)
  next
    case (Cons a list)
    have wa: "json_wf a" "float_free a" using "2.prems" Cons by simp_all
    let ?X = "chunks_text (enc fr (Suc lvl) a) @ chunks_text (enc_items fr (Suc lvl) False list) @
       nl_indent lvl @ '']'' @ r"
    obtain f where f: "parse_elems f ?X = Some (Inr (a # list, r))"
      using "2.IH" [of "Suc lvl" lvl r] "2.prems" Cons by auto
    have tx: "chunks_text (enc fr lvl (JArr vs)) @ r = CHR ''['' # nl_indent (Suc lvl) @ ?X"
      using Cons by (simp add: items_text_Cons [OF wa(1)] del: enc_items.simps)
    have la: "lead_ok (chunks_text (enc fr (Suc lvl) a))" using wa by (rule enc_lead)
    have sk: "skip_ws (nl_indent (Suc lvl) @ ?X) = ?X" by (rule skip_ws_nl_lead [OF la])
    have "take 1 ?X \<noteq> '']''" by (rule lead_ok_not_close [OF la, THEN conjunct1])
    then have "parse_value (Suc f) (chunks_text (enc fr lvl (JArr vs)) @ r) = Some (Inr (JArr vs, r))"
      unfolding tx using parse_value_open_arr [OF sk] f Cons by (simp add: pmap_def del: parse_simps)
    then show ?thesis by blast
  qed
next
  case (3 ms)
  show ?case
  proof (cases ms)
    case Nil
    then show ?thesis by (intro exI [of _ "Suc 0"]) (simp add: json_ws_def)
  next
    case (Cons m list)
    let ?X = "encode_str (fst m) @ '': '' @ chunks_text (enc fr (Suc lvl) (snd m)) @
       chunks_text (enc_members fr (Suc lvl) False list) @ nl_indent lvl @ ''}'' @ r"
    obtain f where f: "parse_members f ?X = Some (Inr (m # list, r))"
      using "3.IH" [of "Suc lvl" lvl r] "3.prems" Cons by auto
    have tx: "chunks_text (enc fr lvl (JObj ms)) @ r = CHR ''{'' # nl_indent (Suc lvl) @ ?X"
      using Cons by (simp add: members_text_Cons del: enc_members.simps)
    have sk: "skip_ws (nl_indent (Suc lvl) @ ?X) = ?X"
      by (simp only: append_assoc skip_ws_nl skip_ws_encode_str)
    have "take 1 ?X \<noteq> ''}''" by (simp add: encode_str_def)
    moreover have "dict_of_pairs ms = ms" using "3.prems" by (simp add: dict_of_pairs_distinct)
    ultimately have "parse_value (Suc f) (chunks_text (enc fr lvl (JObj ms)) @ r) = Some (Inr (JObj ms, r))"
      unfolding tx using parse_value_open_obj [OF sk] f Cons by (simp add: pmap_def del: parse_simps)
    then show ?thesis by blast
  qed
next
  case 4
  show ?case by (intro exI [of _ "Suc 0"]) simp
next
  case (5 b)
  then show ?case by (intro exI [of _ "Suc 0"]) simp
next
  case (7 t)
  then show ?case
    by (intro exI [of _ "Suc 0"]) (simp add: encode_str_def scan_str_encode)
next
  case (9 v vs)
  have wv: "json_wf v" "float_free v" using "9.prems" by simp_all
  let ?T = "chunks_text (enc fr lvl v)"
  show ?case
  proof (cases vs)
    case Nil
    let ?R = "nl_indent k @ '']'' @ r"
    obtain f1 where f1: "parse_value f1 (?T @ ?R) = Some (Inr (v, ?R))"
      using "9.IH"(1) [of ?R lvl] wv stop_nl by blast
    have "skip_ws ?R = CHR '']'' # r" by (simp add: skip_ws_nl json_ws_def)
    with f1 have "parse_elems (Suc f1) (?T @ ?R) = Some (Inr ([v], r))" by (rule parse_elems_last)
    with Nil show ?thesis by (intro exI [of _ "Suc f1"]) (simp del: parse_simps)
  next
    case (Cons w ws)
    have ww: "json_wf w" "float_free w" using "9.prems" Cons by simp_all
    let ?Y = "chunks_text (enc fr lvl w) @ chunks_text (enc_items fr lvl False ws) @ nl_indent k @ '']'' @ r"
    let ?R = "CHR '','' # nl_indent lvl @ ?Y"
    have tl: "chunks_text (enc_items fr lvl False vs) @ nl_indent k @ '']'' @ r = ?R"
      using Cons by (simp add: items_text_Cons [OF ww(1)] del: enc_items.simps)
    obtain f1 where f1: "parse_value f1 (?T @ ?R) = Some (Inr (v, ?R))"
      using "9.IH"(1) [of ?R lvl] wv stop_comma by blast
    obtain f2 where f2: "parse_elems f2 ?Y = Some (Inr (vs, r))"
      using "9.IH"(2) [of lvl k r] "9.prems" Cons by auto
    have sk: "skip_ws (nl_indent lvl @ ?Y) = ?Y" by (rule skip_ws_nl_lead [OF enc_lead [OF ww]])
    obtain f where pv: "parse_value f (?T @ ?R) = Some (Inr (v, ?R))" and pe: "parse_elems f ?Y = Some (Inr (vs, r))"
      using fuel_join_elems [OF f1 f2] by blast
    have "parse_elems f (skip_ws (nl_indent lvl @ ?Y)) = Some (Inr (vs, r))" unfolding sk by (rule pe)
    with pv have "parse_elems (Suc f) (?T @ ?R) = Some (Inr (v # vs, r))" by (rule parse_elems_more)
    then show ?thesis using tl by (intro exI [of _ "Suc f"]) (simp del: parse_simps)
  qed
next
  case (11 m ms)
  obtain key v where m: "m = (key, v)" by fastforce
  have wv: "json_wf v" "float_free v" using "11.prems" m by simp_all
  let ?T = "chunks_text (enc fr lvl v)"
  have sc: "scan_str (drop 1 (encode_str key @ x)) = Inr (key, CHR '':'' # CHR '' '' # ?T @ r')"
    if "x = '': '' @ ?T @ r'" for x r'
    using that by (simp add: encode_str_def scan_str_encode)
  have q: "take 1 (encode_str key @ x) = [CHR 0x22]" for x by (simp add: encode_str_def)
  have sy: "skip_ws (CHR '' '' # ?T @ r') = ?T @ r'" for r'
    using skip_ws_lead [OF enc_lead [OF wv]] by (simp add: json_ws_def)
  show ?case
  proof (cases ms)
    case Nil
    let ?R = "nl_indent k @ ''}'' @ r"
    obtain f1 where f1: "parse_value f1 (?T @ ?R) = Some (Inr (v, ?R))"
      using "11.IH"(1) [of ?R lvl] wv m stop_nl by auto
    have "skip_ws ?R = CHR ''}'' # r" by (simp add: skip_ws_nl json_ws_def)
    moreover have "parse_value f1 (skip_ws (CHR '' '' # ?T @ ?R)) = Some (Inr (v, ?R))"
      unfolding sy by (rule f1)
    ultimately have "parse_members (Suc f1) (encode_str key @ '': '' @ ?T @ ?R) = Some (Inr ([(key, v)], r))"
      by (intro parse_members_last [OF q sc [OF refl]])
    with Nil m show ?thesis by (intro exI [of _ "Suc f1"]) (simp del: parse_simps)
  next
    case (Cons w ws)
    let ?Y = "encode_str (fst w) @ '': '' @ chunks_text (enc fr lvl (snd w)) @
       chunks_text (enc_members fr lvl False ws) @ nl_indent k @ ''}'' @ r"
    let ?R = "CHR '','' # nl_indent lvl @ ?Y"
    have tl: "chunks_text (enc_members fr lvl False ms) @ nl_indent k @ ''}'' @ r = ?R"
      using Cons by (simp add: members_text_Cons del: enc_members.simps)
    obtain f1 where f1: "parse_value f1 (?T @ ?R) = Some (Inr (v, ?R))"
      using "11.IH"(1) [of ?R lvl] wv m stop_comma by auto
    obtain f2 where f2: "parse_members f2 ?Y = Some (Inr (ms, r))"
      using "11.IH"(2) [of lvl k r] "11.prems" Cons by auto
    have sk: "skip_ws (nl_indent lvl @ ?Y) = ?Y"
      by (simp only: append_assoc skip_ws_nl skip_ws_encode_str)
    obtain f where pv: "parse_value f (?T @ ?R) = Some (Inr (v, ?R))" and pm: "parse_members f ?Y = Some (Inr (ms, r))"
      using fuel_join_members [OF f1 f2] by blast
    have pm': "parse_members f (skip_ws (nl_indent lvl @ ?Y)) = Some (Inr (ms, r))" unfolding sk by (rule pm)
    have pv': "parse_value f (skip_ws (CHR '' '' # ?T @ ?R)) = Some (Inr (v, CHR '','' # nl_indent lvl @ ?Y))"
      unfolding sy by (rule pv)
    have "parse_members (Suc f) (encode_str key @ '': '' @ ?T @ ?R) = Some (Inr ((key, v) # ms, r))"
      by (rule parse_members_more [OF q sc [OF refl] pv' pm'])
    with tl m show ?thesis by (intro exI [of _ "Suc f"]) (simp del: parse_simps)
  qed
qed simp_all

lemma json_loads_parsed:
  assumes "parse_value f t = Some (Inr (v, []))" "skip_ws t = t"
  shows "json_loads t = Inr v"
  using parse_value_fuel [OF assms(1)] assms(2) by (simp add: json_loads_def del: parse_simps)

lemma str_nat_length_ge: "10 ^ k \<le> n \<Longrightarrow> k < length (str_nat n)"
proof (induction k arbitrary: n)
  case 0
  then show ?case using str_nat_nonempty [of n] by simp
next
  case (Suc k)
  then have "10 ^ k \<le> n div 10" "\<not> n < 10"
    using div_le_mono [OF Suc.prems, of 10] by (auto simp: le_less_trans [of _ "10 ^ Suc k"])
  then show ?case using Suc.IH [of "n div 10"] by (subst str_nat.simps) simp
qed

lemma json_dump_wf: "json_wf v \<Longrightarrow> json_dump fr v = (chunks_text (enc fr 0 v), None)"
  unfolding json_dump_def by (rule write_chunks_ok [OF enc_ok(1)])

lemma json_loads_enc:
  assumes "json_wf v" "float_free v"
  shows "json_loads (chunks_text (enc fr 0 v)) = Inr v"
proof -
  obtain f where "parse_value f (chunks_text (enc fr 0 v) @ []) = Some (Inr (v, []))"
    using parse_enc(1) [OF assms, where r = "[]" and fr = fr and lvl = 0] by (auto simp: stop_def)
  moreover have "lead_ok (chunks_text (enc fr 0 v))" using assms by (rule enc_lead)
  then have "skip_ws (chunks_text (enc fr 0 v)) = chunks_text (enc fr 0 v)"
    using skip_ws_lead [where r = "[]"] by simp
  ultimately show ?thesis using json_loads_parsed by simp
qed

subsection \<open>Properties of the encoder\<close>

text \<open>
  C4: round trip: for every well-formed value without floats, \<open>json.dump\<close> raises
  nothing and writes a text that \<open>json.loads\<close> decodes to the same value.
\<close>

theorem json_roundtrip:
  assumes "json_wf v" "float_free v"
  shows "json_dump fr v = (chunks_text (enc fr 0 v), None) \<and> json_loads (fst (json_dump fr v)) = Inr v"
  using json_dump_wf [OF assms(1)] json_loads_enc [OF assms] by simp

theorem json_roundtrip_witness:
  "json_dump (\<lambda>x. x) (JObj [(''a'', JArr [JInt 1, JStr ''x'']), (''b'', JNull)]) =
     (chunks_text (enc (\<lambda>x. x) 0 (JObj [(''a'', JArr [JInt 1, JStr ''x'']), (''b'', JNull)])), None) \<and>
   json_loads (fst (json_dump (\<lambda>x. x) (JObj [(''a'', JArr [JInt 1, JStr ''x'']), (''b'', JNull)]))) =
     Inr (JObj [(''a'', JArr [JInt 1, JStr ''x'']), (''b'', JNull)])"
proof (rule json_roundtrip)
  have "str_nat 1 = ''1''" by code_simp
  then show "json_wf (JObj [(''a'', JArr [JInt 1, JStr ''x'']), (''b'', JNull)])"
    by (simp add: INT_MAX_STR_DIGITS_def)
qed simp

text \<open>
  C27: an integer of more than 4300 digits makes \<open>json.dump\<close> raise the
  \<open>ValueError\<close> of \<open>int.__repr__\<close> after the chunks before it are written: the file
  keeps a truncated document.
\<close>

theorem json_dump_int_limit:
  assumes "INT_MAX_STR_DIGITS < length (str_nat (nat \<bar>i\<bar>))"
  shows "json_dump fr (JArr [JInt 1, JInt i]) = (''['' @ nl_indent 1 @ ''1'', Some int_limit_err)"
proof -
  have "str_nat 1 = ''1''" by code_simp
  then show ?thesis using assms by (simp add: json_dump_def int_repr_def Let_def INT_MAX_STR_DIGITS_def)
qed

theorem json_dump_int_limit_witness:
  "json_dump (\<lambda>x. x) (JArr [JInt 1, JInt (int (10 ^ 4300))]) = (''['' @ nl_indent 1 @ ''1'', Some int_limit_err)"
proof (rule json_dump_int_limit)
  have "4300 < length (str_nat (10 ^ 4300))" by (rule str_nat_length_ge [OF order_refl])
  then show "INT_MAX_STR_DIGITS < length (str_nat (nat \<bar>int (10 ^ 4300)\<bar>))"
    by (simp only: INT_MAX_STR_DIGITS_def abs_of_nat nat_int)
qed

end
