(* ===== verification/Setup.thy ===== *)
theory Setup
  imports Api
begin

text \<open>
  What runs when the modules are loaded: \<open>src/menu_api.py\<close> creates its two folders with
  \<open>os.makedirs(..., exist_ok=True)\<close> (lines 16 and 17), and the test block of
  \<open>src/pdf_to_text.py\<close> prints the extraction of a fixed file. \<open>os_makedirs\<close> is
  \<open>os.makedirs\<close> of CPython: it creates the missing parents first (a
  \<open>FileExistsError\<close> from that recursive call is ignored), then the directory, and with
  \<open>exist_ok\<close> it ignores the error of a directory that already exists, but not of a
  file in the way.
\<close>

definition basename :: "path \<Rightarrow> path" where
  "basename p = rev (takeWhile (\<lambda>c. c \<noteq> CHR ''/'') (rev p))"

text \<open>\<open>posixpath.split\<close>: the head is \<open>dirname\<close>, the tail what follows the last slash.\<close>

definition os_path_split :: "path \<Rightarrow> path \<times> path" where
  "os_path_split p = (dirname p, basename p)"

definition os_path_isdir :: "fs \<Rightarrow> path \<Rightarrow> bool" where
  "os_path_isdir s p \<longleftrightarrow> normpath p \<in> fs_dirs s"

text \<open>\<open>os.mkdir\<close>: \<open>FileExistsError\<close> when the path is a file or a directory, an
  \<open>OSError\<close> when the parent is not a directory.\<close>

definition os_mkdir :: "fs \<Rightarrow> path \<Rightarrow> pyexc + fs" where
  "os_mkdir s p =
     (let k = normpath p in
      if k \<in> fs_dirs s \<or> k \<in> dom (fs_files s) then Inl (FileExistsError p)
      else if key_parent k \<in> fs_dirs s then Inr (s\<lparr>fs_dirs := insert k (fs_dirs s)\<rparr>)
      else Inl (OSError p))"

definition is_file_exists :: "pyexc \<Rightarrow> bool" where
  "is_file_exists e = (case e of FileExistsError _ \<Rightarrow> True | _ \<Rightarrow> False)"

definition makedirs_leaf :: "bool \<Rightarrow> fs \<Rightarrow> path \<Rightarrow> pyexc + fs" where
  "makedirs_leaf exist_ok s name =
     (case os_mkdir s name of
        Inr s' \<Rightarrow> Inr s'
      | Inl e \<Rightarrow> if \<not> exist_ok \<or> \<not> os_path_isdir s name then Inl e else Inr s)"

lemma dirname_length: "length (dirname p) + length (basename p) \<le> length p"
proof -
  let ?h = "rev (dropWhile (\<lambda>c. c \<noteq> CHR ''/'') (rev p))"
  have h: "length (dirname p) \<le> length ?h"
    unfolding dirname_def Let_def by (simp add: length_dropWhile_le)
  have "length (takeWhile (\<lambda>c. c \<noteq> CHR ''/'') (rev p)) + length (dropWhile (\<lambda>c. c \<noteq> CHR ''/'') (rev p)) = length p"
    by (metis length_append length_rev takeWhile_dropWhile_id)
  then have "length ?h + length (basename p) = length p" by (simp add: basename_def)
  with h show ?thesis by linarith
qed

lemma split_head_shorter:
  assumes "(if basename name = [] then os_path_split (dirname name) else os_path_split name) = (head, tail)"
    and "tail \<noteq> []"
  shows "length head < length name"
proof (cases "basename name = []")
  case True
  then have ht: "head = dirname (dirname name)" "tail = basename (dirname name)"
    using assms(1) by (simp_all add: os_path_split_def)
  have "length (dirname name) \<le> length name" using dirname_length [of name] by linarith
  moreover have "0 < length (basename (dirname name))" using assms(2) ht(2) by simp
  ultimately have "length (dirname (dirname name)) < length name"
    using dirname_length [of "dirname name"] by linarith
  with ht(1) show ?thesis by simp
next
  case False
  then have "head = dirname name" "0 < length (basename name)" using assms(1) by (simp_all add: os_path_split_def)
  moreover have "length (dirname name) < length name" using calculation(2) dirname_length [of name] by linarith
  ultimately show ?thesis by simp
qed

function os_makedirs :: "bool \<Rightarrow> fs \<Rightarrow> path \<Rightarrow> pyexc + fs" where
  "os_makedirs exist_ok s name =
     (case (if basename name = [] then os_path_split (dirname name) else os_path_split name) of
        (head, tail) \<Rightarrow>
          if head \<noteq> [] \<and> tail \<noteq> [] \<and> \<not> os_path_exists s head then
            (case os_makedirs exist_ok s head of
               Inl e \<Rightarrow> if is_file_exists e then (if tail = ''.'' then Inr s else makedirs_leaf exist_ok s name)
                        else Inl e
             | Inr s1 \<Rightarrow> if tail = ''.'' then Inr s1 else makedirs_leaf exist_ok s1 name)
          else makedirs_leaf exist_ok s name)"
  by pat_completeness auto
termination
  by (relation "measure (\<lambda>(b, s, name). length name)") (auto intro: split_head_shorter [OF sym])

declare os_makedirs.simps [simp del]

text \<open>The import-time set-up of \<open>src/menu_api.py\<close>, lines 16 and 17.\<close>

definition menu_api_init :: "fs \<Rightarrow> pyexc + fs" where
  "menu_api_init s =
     res_bind (os_makedirs True s UPLOAD_FOLDER) (\<lambda>s1. os_makedirs True s1 OUTPUT_FOLDER)"

text \<open>The test block of \<open>src/pdf_to_text.py\<close> (lines 60 to 64): the text it prints,
  followed by the newline of \<open>print\<close>, or the exception that ends the script.\<close>

definition pdf_to_text_main :: "'img backend \<Rightarrow> fs \<Rightarrow> pyexc + string" where
  "pdf_to_text_main be s =
     res_bind (extract_text_hybrid be s ''./example_pdfs/bacardi_menu.pdf'') (\<lambda>hybrid_text.
       Inr (hybrid_text @ [CHR 0x0A]))"

subsection \<open>Directory creation\<close>

definition dirs_grow :: "fs \<Rightarrow> fs \<Rightarrow> bool" where
  "dirs_grow s s' \<longleftrightarrow> (fs_wf s \<longrightarrow> fs_wf s') \<and> fs_files s' = fs_files s \<and> fs_dirs s \<subseteq> fs_dirs s'"

lemma dirs_grow_refl [simp]: "dirs_grow s s"
  by (simp add: dirs_grow_def)

lemma dirs_grow_trans: "dirs_grow s s1 \<Longrightarrow> dirs_grow s1 s2 \<Longrightarrow> dirs_grow s s2"
  by (auto simp: dirs_grow_def)

lemma os_mkdir_grow: "os_mkdir s p = Inr s' \<Longrightarrow> dirs_grow s s'"
  unfolding os_mkdir_def Let_def dirs_grow_def fs_wf_def by (auto split: if_splits) blast+

lemma makedirs_leaf_grow: "makedirs_leaf ok s p = Inr s' \<Longrightarrow> dirs_grow s s'"
  by (auto simp: makedirs_leaf_def os_mkdir_grow split: sum.splits if_splits)

lemma os_makedirs_grow: "os_makedirs ok s p = Inr s' \<Longrightarrow> dirs_grow s s'"
proof (induction ok s p arbitrary: s' rule: os_makedirs.induct)
  case (1 ok s name)
  obtain head tail where ht:
    "(if basename name = [] then os_path_split (dirname name) else os_path_split name) = (head, tail)"
    by (metis surj_pair)
  note eq = "1.prems" [unfolded os_makedirs.simps [of ok s name] ht prod.case]
  show ?case
  proof (cases "head \<noteq> [] \<and> tail \<noteq> [] \<and> \<not> os_path_exists s head")
    case True
    show ?thesis
    proof (cases "os_makedirs ok s head")
      case (Inl e)
      with True eq show ?thesis by (auto intro: makedirs_leaf_grow split: if_splits)
    next
      case (Inr s1)
      then have "dirs_grow s s1" using "1.IH" [OF ht [symmetric]] True by blast
      with True Inr eq show ?thesis by (auto intro: dirs_grow_trans makedirs_leaf_grow split: if_splits)
    qed
  next
    case False
    with eq show ?thesis by (auto intro: makedirs_leaf_grow)
  qed
qed

lemma folder_split:
  "os_path_split UPLOAD_FOLDER = (''.'', ''example_pdfs'')" "basename UPLOAD_FOLDER \<noteq> []"
  "os_path_split OUTPUT_FOLDER = (''.'', ''output_jsons'')" "basename OUTPUT_FOLDER \<noteq> []"
  "normpath UPLOAD_FOLDER = ''example_pdfs''" "normpath OUTPUT_FOLDER = ''output_jsons''"
  "key_parent ''example_pdfs'' = ''.''" "key_parent ''output_jsons'' = ''.''" "normpath ''.'' = ''.''"
  by (simp_all add: UPLOAD_FOLDER_def OUTPUT_FOLDER_def) code_simp+

lemma makedirs_folder:
  assumes "p = UPLOAD_FOLDER \<or> p = OUTPUT_FOLDER" "''.'' \<in> fs_dirs s"
  shows "os_makedirs True s p =
           (if normpath p \<in> dom (fs_files s) \<and> normpath p \<notin> fs_dirs s then Inl (FileExistsError p)
            else Inr (s\<lparr>fs_dirs := insert (normpath p) (fs_dirs s)\<rparr>))"
proof -
  have "os_path_exists s ''.''" using assms(2) folder_split by (simp add: os_path_exists_def)
  then show ?thesis using assms folder_split
    by (auto simp: os_makedirs.simps [of True s p] makedirs_leaf_def os_mkdir_def os_path_isdir_def
        insert_absorb Let_def split: if_splits)
qed

definition empty_cwd :: fs where
  "empty_cwd = \<lparr>fs_files = Map.empty, fs_dirs = {''.''}\<rparr>"

text \<open>A path relative to the working directory, \<open>./c1/.../cn\<close>, made of plain names (no
  slash, not empty, not \<open>.\<close> or \<open>..\<close>), the directories \<open>c1\<close>, \<open>c1/c2\<close>, ... it
  names, and a directory set closed under taking the parent.\<close>

definition plain_name :: "string \<Rightarrow> bool" where
  "plain_name c \<longleftrightarrow> c \<noteq> [] \<and> CHR ''/'' \<notin> set c \<and> c \<noteq> ''.'' \<and> c \<noteq> ''..''"

definition rel_path :: "string list \<Rightarrow> path" where
  "rel_path cs = ''./'' @ py_join ''/'' cs"

definition dir_prefixes :: "string list \<Rightarrow> path list" where
  "dir_prefixes cs = map (\<lambda>i. py_join ''/'' (take i cs)) [1..<Suc (length cs)]"

definition dirs_closed :: "fs \<Rightarrow> bool" where
  "dirs_closed s \<longleftrightarrow> (\<forall>d \<in> fs_dirs s. key_parent d \<in> fs_dirs s)"

lemma init_folders:
  assumes "''.'' \<in> fs_dirs s" "''example_pdfs'' \<notin> dom (fs_files s)" "''output_jsons'' \<notin> dom (fs_files s)"
  shows "menu_api_init s = Inr (s\<lparr>fs_dirs := fs_dirs s \<union> {''example_pdfs'', ''output_jsons''}\<rparr>)"
  using assms makedirs_folder [of UPLOAD_FOLDER s] makedirs_folder [of OUTPUT_FOLDER "s\<lparr>fs_dirs := insert ''example_pdfs'' (fs_dirs s)\<rparr>"]
  by (simp add: menu_api_init_def folder_split insert_commute)

subsection \<open>Properties of the set-up\<close>

text \<open>\<open>os.makedirs\<close> keeps the file system well formed, changes no file and only adds
  directories.\<close>

lemma os_makedirs_wf:
  "fs_wf s \<Longrightarrow> os_makedirs ok s p = Inr s' \<Longrightarrow>
   fs_wf s' \<and> fs_files s' = fs_files s \<and> fs_dirs s \<subseteq> fs_dirs s'"
  using os_makedirs_grow by (auto simp: dirs_grow_def)

lemma dir_prefixes_snoc:
  "set (dir_prefixes (ds @ [c])) = insert (py_join ''/'' (ds @ [c])) (set (dir_prefixes ds))"
proof -
  have "map (\<lambda>i. py_join ''/'' (take i (ds @ [c]))) [1..<Suc (length ds)] =
        map (\<lambda>i. py_join ''/'' (take i ds)) [1..<Suc (length ds)]"
    by (rule map_cong) auto
  then show ?thesis by (simp add: dir_prefixes_def)
qed

lemma takeWhile_not_sep:
  "CHR ''/'' \<notin> set c \<Longrightarrow> takeWhile (\<lambda>a. a \<noteq> CHR ''/'') (rev c @ CHR ''/'' # r) = rev c"
  by (induction c rule: rev_induct) auto

lemma dropWhile_not_sep:
  "CHR ''/'' \<notin> set c \<Longrightarrow> dropWhile (\<lambda>a. a \<noteq> CHR ''/'') (rev c @ CHR ''/'' # r) = CHR ''/'' # r"
  by (induction c rule: rev_induct) auto

lemma basename_snoc: "CHR ''/'' \<notin> set c \<Longrightarrow> basename (x @ CHR ''/'' # c) = c"
  by (simp add: basename_def takeWhile_not_sep)

lemma dirname_snoc:
  assumes "x \<noteq> []" "last x \<noteq> CHR ''/''" "CHR ''/'' \<notin> set c"
  shows "dirname (x @ CHR ''/'' # c) = x"
proof -
  have h: "rev (dropWhile (\<lambda>c. c \<noteq> CHR ''/'') (rev (x @ CHR ''/'' # c))) = x @ ''/''"
    using assms(3) by (simp add: dropWhile_not_sep)
  have "x @ ''/'' \<noteq> replicate (length (x @ ''/'')) CHR ''/''"
  proof
    assume "x @ ''/'' = replicate (length (x @ ''/'')) CHR ''/''"
    moreover have "last x \<in> set (x @ ''/'')" using assms(1) by simp
    ultimately show False using assms(2) by (metis in_set_replicate)
  qed
  moreover have "rev (dropWhile (\<lambda>c. c = CHR ''/'') (rev (x @ ''/''))) = x"
    using assms(1,2) by (cases "rev x") (auto simp: rev_swap [symmetric])
  ultimately show ?thesis using h by (simp add: dirname_def Let_def)
qed

lemma py_join_last: "xs \<noteq> [] \<Longrightarrow> last xs \<noteq> [] \<Longrightarrow> py_join sep xs \<noteq> [] \<and> last (py_join sep xs) = last (last xs)"
  by (induction xs) auto

lemma norm_comps_plain: "list_all plain_name cs \<Longrightarrow> norm_comps ab acc cs = rev acc @ cs"
  by (induction cs arbitrary: acc) (auto simp: plain_name_def)

lemma normpath_rel_path:
  assumes "list_all plain_name cs" "cs \<noteq> []"
  shows "normpath (rel_path cs) = py_join ''/'' cs"
proof -
  have "\<forall>x\<in>set cs. CHR ''/'' \<notin> set x" using assms(1) by (simp add: list_all_iff plain_name_def)
  then have "split_on CHR ''/'' (rel_path cs) = ''.'' # cs"
    using assms(2) split_on_append_sep [of "CHR ''/''" "''.''"] split_on_py_join [of cs "CHR ''/''"]
    by (simp add: rel_path_def)
  moreover have "py_join ''/'' cs \<noteq> []"
    using assms py_join_last [of cs] by (simp add: list_all_iff plain_name_def)
  ultimately show ?thesis
    using assms(1) by (simp add: normpath_def rel_path_def initial_slashes_def norm_comps_plain Let_def)
qed

lemma plain_snoc: "list_all plain_name (ds @ [c]) \<Longrightarrow> list_all plain_name ds \<and> plain_name c"
  by simp

lemma rel_path_snoc:
  "rel_path (ds @ [c]) = (if ds = [] then ''.'' else rel_path ds) @ CHR ''/'' # c"
  by (simp add: rel_path_def py_join_snoc)

lemma join_last_not_sep:
  "list_all plain_name ds \<Longrightarrow> ds \<noteq> [] \<Longrightarrow> py_join ''/'' ds \<noteq> [] \<and> last (py_join ''/'' ds) \<noteq> CHR ''/''"
proof -
  assume a: "list_all plain_name ds" "ds \<noteq> []"
  then have p: "last ds \<noteq> [] \<and> CHR ''/'' \<notin> set (last ds)"
    using last_in_set [of ds] by (auto simp: list_all_iff plain_name_def)
  then have "last (last ds) \<noteq> CHR ''/''" using last_in_set [of "last ds"] by metis
  then show ?thesis using py_join_last [of ds "''/''"] a(2) p by simp
qed

lemma split_rel_path_snoc:
  assumes "list_all plain_name (ds @ [c])"
  shows "dirname (rel_path (ds @ [c])) = (if ds = [] then ''.'' else rel_path ds)"
    and "basename (rel_path (ds @ [c])) = c"
proof -
  have c: "CHR ''/'' \<notin> set c" using assms by (simp add: plain_name_def)
  define x where "x = (if ds = [] then ''.'' else rel_path ds)"
  have "x \<noteq> [] \<and> last x \<noteq> CHR ''/''"
    using join_last_not_sep [of ds] assms by (simp add: x_def rel_path_def)
  then have "dirname (x @ CHR ''/'' # c) = x" using c dirname_snoc by blast
  then show "dirname (rel_path (ds @ [c])) = (if ds = [] then ''.'' else rel_path ds)"
    by (simp add: x_def rel_path_snoc)
  show "basename (rel_path (ds @ [c])) = c" using c basename_snoc by (simp only: rel_path_snoc)
qed

lemma key_parent_join_snoc:
  assumes "list_all plain_name (ds @ [c])"
  shows "key_parent (py_join ''/'' (ds @ [c])) = (if ds = [] then ''.'' else py_join ''/'' ds)"
proof (cases "ds = []")
  case True
  have "CHR ''/'' \<notin> set c" using assms by (simp add: plain_name_def)
  then have "dropWhile (\<lambda>a. a \<noteq> CHR ''/'') (rev c) = []" by (auto simp: dropWhile_eq_Nil_conv)
  then show ?thesis using True by (simp add: key_parent_def dirname_def)
next
  case False
  then show ?thesis using assms join_last_not_sep [of ds] dirname_snoc [of "py_join ''/'' ds" c]
    by (simp add: key_parent_def py_join_snoc plain_name_def)
qed

lemma dirs_closed_prefixes:
  "dirs_closed s \<Longrightarrow> list_all plain_name ds \<Longrightarrow> ds \<noteq> [] \<Longrightarrow> py_join ''/'' ds \<in> fs_dirs s \<Longrightarrow>
   set (dir_prefixes ds) \<subseteq> fs_dirs s"
proof (induction ds rule: rev_induct)
  case (snoc e es)
  have "es \<noteq> [] \<Longrightarrow> py_join ''/'' es \<in> fs_dirs s"
    using snoc.prems key_parent_join_snoc [of es e] by (auto simp: dirs_closed_def)
  then show ?case using snoc by (cases "es = []") (auto simp: dir_prefixes_snoc dir_prefixes_def)
qed simp

lemma makedirs_leaf_new:
  "key_parent (normpath p) \<in> fs_dirs s \<Longrightarrow> normpath p \<notin> dom (fs_files s) \<Longrightarrow>
   makedirs_leaf True s p = Inr (s\<lparr>fs_dirs := insert (normpath p) (fs_dirs s)\<rparr>)"
  by (auto simp: makedirs_leaf_def os_mkdir_def os_path_isdir_def insert_absorb Let_def)

lemma join_in_prefixes: "ds \<noteq> [] \<Longrightarrow> py_join ''/'' ds \<in> set (dir_prefixes ds)"
  by (auto simp: dir_prefixes_def image_iff Suc_le_eq intro!: bexI [of _ "length ds"])

lemma normpath_dot: "normpath ''.'' = ''.''"
  by code_simp

text \<open>
  C28: \<open>os.makedirs(name, exist_ok=True)\<close> on a path \<open>./c1/.../cn\<close> of plain names, in a
  working directory whose directories are closed under the parent and where none of
  \<open>c1\<close>, \<open>c1/c2\<close>, ..., \<open>c1/.../cn\<close> is a file, succeeds and creates exactly the missing ones
  among these directories: every ancestor of the leaf, and the leaf; nothing else changes.
\<close>

theorem os_makedirs_creates:
  assumes "dirs_closed s" "''.'' \<in> fs_dirs s" "list_all plain_name cs" "cs \<noteq> []"
    "list_all (\<lambda>q. q \<notin> dom (fs_files s)) (dir_prefixes cs)"
  shows "os_makedirs True s (rel_path cs) = Inr (s\<lparr>fs_dirs := fs_dirs s \<union> set (dir_prefixes cs)\<rparr>)"
  using assms(3-5)
proof (induction cs rule: rev_induct)
  case (snoc c ds)
  let ?p = "rel_path (ds @ [c])" and ?k = "py_join ''/'' (ds @ [c])" and ?j = "py_join ''/'' ds"
  let ?H = "if ds = [] then ''.'' else rel_path ds"
  have pl: "list_all plain_name ds" "c \<noteq> []" "c \<noteq> ''.''"
    using snoc.prems(1) by (simp_all add: plain_name_def [of c])
  have split: "(if basename ?p = [] then os_path_split (dirname ?p) else os_path_split ?p) = (?H, c)"
    using split_rel_path_snoc [OF snoc.prems(1)] pl(2) by (simp add: os_path_split_def)
  have np: "normpath ?p = ?k" using normpath_rel_path [OF snoc.prems(1)] by simp
  have pre: "set (dir_prefixes (ds @ [c])) = insert ?k (set (dir_prefixes ds))" by (rule dir_prefixes_snoc)
  have kf: "?k \<notin> dom (fs_files s)" and dsf: "list_all (\<lambda>q. q \<notin> dom (fs_files s)) (dir_prefixes ds)"
    using snoc.prems(3) by (simp_all add: list_all_iff pre)
  have kp: "key_parent ?k = (if ds = [] then ''.'' else ?j)" by (rule key_parent_join_snoc [OF snoc.prems(1)])
  have mk: "os_makedirs True s ?p =
     (if ?H \<noteq> [] \<and> c \<noteq> [] \<and> \<not> os_path_exists s ?H then
        (case os_makedirs True s ?H of
           Inl e \<Rightarrow> if is_file_exists e then (if c = ''.'' then Inr s else makedirs_leaf True s ?p) else Inl e
         | Inr s1 \<Rightarrow> if c = ''.'' then Inr s1 else makedirs_leaf True s1 ?p)
      else makedirs_leaf True s ?p)"
    by (simp only: os_makedirs.simps [of True s ?p] split prod.case)
  show ?case
  proof (cases "ds = [] \<or> ?j \<in> fs_dirs s")
    case True
    then have "os_path_exists s ?H"
      using assms(2) normpath_rel_path [OF pl(1)] by (auto simp: os_path_exists_def normpath_dot)
    moreover have "fs_dirs s \<union> set (dir_prefixes ds) = fs_dirs s"
    proof (cases "ds = []")
      case False
      then show ?thesis using True dirs_closed_prefixes [OF assms(1) pl(1)] by auto
    qed (simp add: dir_prefixes_def)
    moreover have "key_parent ?k \<in> fs_dirs s" using True assms(2) kp by auto
    ultimately show ?thesis using mk makedirs_leaf_new [where s = s and p = ?p] np kf pre by simp
  next
    case False
    then have "\<not> os_path_exists s ?H" and "?j \<notin> dom (fs_files s)"
      using normpath_rel_path [OF pl(1)] dsf join_in_prefixes [of ds]
      by (auto simp: os_path_exists_def list_all_iff)
    moreover have "os_makedirs True s ?H = Inr (s\<lparr>fs_dirs := fs_dirs s \<union> set (dir_prefixes ds)\<rparr>)"
      using False snoc.IH pl(1) dsf by simp
    moreover have "key_parent ?k \<in> fs_dirs s \<union> set (dir_prefixes ds)"
      using False kp join_in_prefixes [of ds] by simp
    ultimately show ?thesis
      using mk pl makedirs_leaf_new [where s = "s\<lparr>fs_dirs := fs_dirs s \<union> set (dir_prefixes ds)\<rparr>" and p = ?p] np kf pre
      by (simp add: rel_path_def)
  qed
qed simp

theorem os_makedirs_creates_witness:
  "os_makedirs True empty_cwd (rel_path [''a'', ''b'']) = Inr (empty_cwd\<lparr>fs_dirs := {''.'', ''a'', ''a/b''}\<rparr>)"
proof -
  have d: "dir_prefixes [''a'', ''b''] = [''a'', ''a/b'']" by code_simp
  have k: "key_parent ''.'' = ''.''" by code_simp
  have "dirs_closed empty_cwd" using k by (simp add: dirs_closed_def empty_cwd_def)
  moreover have "list_all plain_name [''a'', ''b'']" by (simp add: plain_name_def)
  ultimately show ?thesis
    using os_makedirs_creates [of empty_cwd "[''a'', ''b'']"] d by (simp add: empty_cwd_def insert_commute)
qed

text \<open>
  C29: loading \<open>src/menu_api.py\<close> in a working directory where neither folder name is
  taken by a file creates \<open>example_pdfs\<close> and \<open>output_jsons\<close> (or keeps them), changes
  nothing else, and loading it again changes nothing.
\<close>

theorem menu_api_init_ok:
  assumes "''.'' \<in> fs_dirs s" "''example_pdfs'' \<notin> dom (fs_files s)" "''output_jsons'' \<notin> dom (fs_files s)"
  shows "menu_api_init s = Inr (s\<lparr>fs_dirs := fs_dirs s \<union> {''example_pdfs'', ''output_jsons''}\<rparr>) \<and>
         menu_api_init (s\<lparr>fs_dirs := fs_dirs s \<union> {''example_pdfs'', ''output_jsons''}\<rparr>) =
           Inr (s\<lparr>fs_dirs := fs_dirs s \<union> {''example_pdfs'', ''output_jsons''}\<rparr>)"
  using init_folders [OF assms] init_folders [of "s\<lparr>fs_dirs := fs_dirs s \<union> {''example_pdfs'', ''output_jsons''}\<rparr>"] assms
  by (simp add: insert_commute)

theorem menu_api_init_ok_witness:
  "menu_api_init empty_cwd = Inr (empty_cwd\<lparr>fs_dirs := {''.'', ''example_pdfs'', ''output_jsons''}\<rparr>) \<and>
   menu_api_init (empty_cwd\<lparr>fs_dirs := {''.'', ''example_pdfs'', ''output_jsons''}\<rparr>) =
     Inr (empty_cwd\<lparr>fs_dirs := {''.'', ''example_pdfs'', ''output_jsons''}\<rparr>)"
  using menu_api_init_ok [of empty_cwd] by (simp add: empty_cwd_def insert_commute)

text \<open>
  C30: a file named \<open>output_jsons\<close> in the working directory makes loading
  \<open>src/menu_api.py\<close> fail with \<open>FileExistsError\<close>: \<open>exist_ok\<close> forgives only an existing
  directory.
\<close>

theorem menu_api_init_file_clash:
  assumes "fs_wf s" "''.'' \<in> fs_dirs s" "''example_pdfs'' \<notin> dom (fs_files s)" "''output_jsons'' \<in> dom (fs_files s)"
  shows "menu_api_init s = Inl (FileExistsError OUTPUT_FOLDER)"
proof -
  have "''output_jsons'' \<notin> fs_dirs s" using assms(1,4) by (auto simp: fs_wf_def)
  then show ?thesis
    using assms makedirs_folder [of UPLOAD_FOLDER s] makedirs_folder [of OUTPUT_FOLDER "s\<lparr>fs_dirs := insert ''example_pdfs'' (fs_dirs s)\<rparr>"]
    by (simp add: menu_api_init_def folder_split)
qed

theorem menu_api_init_file_clash_witness:
  "menu_api_init (empty_cwd\<lparr>fs_files := [''output_jsons'' \<mapsto> ''x'']\<rparr>) = Inl (FileExistsError OUTPUT_FOLDER)"
proof (rule menu_api_init_file_clash)
  show "fs_wf (empty_cwd\<lparr>fs_files := [''output_jsons'' \<mapsto> ''x'']\<rparr>)"
    using folder_split by (simp add: fs_wf_def empty_cwd_def)
qed (simp_all add: empty_cwd_def)

end
