(* ===== verification/Spec2Isabelle.thy ===== *)
theory Spec2Isabelle
  imports Api JsonEncode Setup
begin

text \<open>
  \<^bold>\<open>A verification library for pdf-to-json-parser.\<close>

  The program turns a drinks-menu PDF into a JSON description. Its parts, in the order
  data flows through them:
  \<^item> \<^emph>\<open>OCR price cleanup\<close> (\<open>src/pdf_to_text.py\<close>, \<open>PRICE_WORDS\<close>,
    \<open>fix_price_words\<close>, \<open>clean_ocr_text\<close>): a regular-expression substitution that
    turns a mis-read \<open>S\<close> before a price into \<open>$\<close>;
  \<^item> \<^emph>\<open>text extraction\<close> (\<open>extract_text_from_image_pdf\<close>, \<open>extract_text_hybrid\<close>):
    the pdfplumber text layer, with a document-level fallback to pdf2image and
    tesseract, rendered as \<open>Page n: text\<close> lines;
  \<^item> \<^emph>\<open>structuring\<close> (\<open>src/query_llm.py\<close>, \<open>model\<close>, \<open>format_prompt\<close>,
    \<open>query_model_to_json\<close>): a fixed prompt around the extracted text, one call of the
    hosted model, \<open>json.loads\<close> of its reply;
  \<^item> \<^emph>\<open>the HTTP handlers\<close> (\<open>src/menu_api.py\<close>), which save an upload, run the two
    stages in sequence and write the JSON next to the input with \<open>json.dump\<close>;
  \<^item> \<^emph>\<open>module set-up\<close>: loading \<open>src/menu_api.py\<close> creates the two folders
    (\<open>os.makedirs\<close>), and \<open>src/pdf_to_text.py\<close> has a test block.
  The stages share no state: the extractor's result string is the structurer's only
  input, and the handlers compose them (\<open>Api.menu_pipeline\<close>).

  \<^bold>\<open>Theories.\<close>
  \<^item> \<open>Prelude\<close>: the Python exceptions of the pipeline (\<open>pyexc\<close>), results as
    \<open>pyexc + 'a\<close> with \<open>res_bind\<close> (an exception propagates, as in Python), and the
    string primitives: \<open>str.strip\<close> (\<open>py_strip\<close>), \<open>str.join\<close> (\<open>py_join\<close>),
    \<open>str(int)\<close> (\<open>str_nat\<close>) and the character classes \<open>\w\<close>, \<open>\d\<close> and
    lower-casing of Python 3 on Latin-1 (a \<open>char\<close> is the code point of its number).
  \<^item> \<open>Regex\<close>: the subset of \<open>re\<close> the cleanup uses. \<open>rx_match\<close> lists the matches
    at a position in the order of Python's backtracking matcher; \<open>sub_from\<close> is the
    scan of \<open>Pattern.sub\<close> (a \<^theory_text>\<open>function\<close> whose termination measure is the
    length of the text left).
  \<^item> \<open>PriceFix\<close>: \<open>price_pattern\<close> is the compiled
    \<open>\bS(\d+|(?:ten|twelve|fifteen|twenty))\b\<close> with \<open>re.IGNORECASE\<close>,
    \<open>fix_price_words\<close> the substitution. Its reference specification \<open>fix_spec\<close>
    works on word tokens (\<open>price_start\<close>): the equivalence \<open>fix_price_words_spec\<close>
    is the main theorem, with idempotence and what a pass may change.
  \<^item> \<open>Files\<close>: the file system as a map from normalised paths to contents plus the set
    of directories, with \<open>os.path.join\<close>, \<open>os.path.normpath\<close>,
    \<open>os.path.dirname\<close>, \<open>os.path.exists\<close> and \<open>PurePosixPath.with_suffix\<close>.
  \<^item> \<open>JsonDecode\<close>: \<open>json.loads\<close> as CPython runs it: \<open>scan_str\<close> (the string
    scanner with its escapes), \<open>scan_number\<close> (\<open>NUMBER_RE\<close> and \<open>int()\<close> with its
    4300-digit limit) and the mutually recursive \<open>parse_value\<close>, \<open>parse_elems\<close>,
    \<open>parse_members\<close> (\<open>scan_once\<close>, \<open>JSONArray\<close>, \<open>JSONObject\<close>, duplicate
    keys as in a \<open>dict\<close>). Its theorems: termination with the fuel \<open>json_fuel\<close>,
    that more fuel changes no answer, that decoded values are well formed
    (\<open>json_wf\<close>: distinct keys, bounded integers), the closed list of its exceptions,
    and the integer limit. A \<open>\u\<close> escape needs a character after its four digits,
    as in \<open>_json.c\<close> (\<open>hex4\<close>).
  \<^item> \<open>JsonEncode\<close>: \<open>json.dump(..., indent=2)\<close> as the chunk stream of
    \<open>_make_iterencode\<close> (\<open>enc\<close>, \<open>enc_items\<close>, \<open>enc_members\<close>) written chunk
    by chunk (\<open>write_chunks\<close>), so that an exception leaves the chunks before it.
    Its theorems: the round trip \<open>json_roundtrip\<close> (a well-formed value without
    floats dumps without error to a text \<open>json.loads\<close> reads back) and
    the truncated output when an integer is too long for \<open>int.__repr__\<close>.
  \<^item> \<open>Extract\<close>: the libraries as the record \<open>backend\<close> (pdfplumber per page,
    pdf2image at a resolution, tesseract per image, each may raise),
    \<open>native_pages\<close> and \<open>ocr_pages\<close> the two page loops, \<open>extract_text_hybrid\<close>
    the whole function. Its theorems: the document-level fallback policy, the OCR
    result, blank documents, the \<open>None\<close> page, error propagation, the invariant of
    the kept pages, the refinement of the specification's algorithm \<open>extract_spec\<close>
    (which needs that cleaning commutes with \<open>str.strip\<close>,
    \<open>PriceFix.clean_ocr_text_strip\<close>), and the page markers: \<open>parse_pages\<close> reads
    the serialisation back when no page text spans lines, and cannot otherwise.
  \<^item> \<open>Query\<close>: the model object, the prompt (\<open>prompt_lines\<close> are the lines of the
    source's f-string), \<open>query_model_to_json\<close> over a model capability \<open>generate\<close>
    and a decoder; its theorems are stated for every capability and every decoder.
  \<^item> \<open>Api\<close>: the handlers \<open>upload_pdf\<close> and \<open>process_pdf\<close> over a request record
    (\<open>request.files\<close>, \<open>request.args\<close>) and the file system, returning the JSON body
    and status code and the file system after the writes. \<open>menu_pipeline\<close> is the
    extraction followed by the model query, \<open>save_menu_json\<close> the \<open>try\<close> block both
    handlers share (pipeline, \<open>Path.with_suffix\<close>, \<open>json.dump\<close> into
    \<open>OUTPUT_FOLDER\<close>, 500 on any exception). The services (pdf libraries, model,
    \<open>json.loads\<close>, \<open>json.dump\<close>) are a record parameter; the dump gives the text
    it writes and the exception it raises after writing it. Its theorems: the 400
    and 404 answers, the unchecked upload file name (a path outside the upload folder),
    the frame of an upload (\<open>upload_pdf_frame\<close>: no file but the upload and its
    JSON output changes), the 200 answer and its output file, the
    500 answers (a failing dump keeps its partial file), the kept upload after a
    failure, and the status codes.
  \<^item> \<open>Setup\<close>: \<open>os.mkdir\<close> and \<open>os.makedirs\<close> (a \<^theory_text>\<open>function\<close> that
    creates missing parents first; its termination measure is the length of the path),
    the import-time \<open>menu_api_init\<close> and the test block \<open>pdf_to_text_main\<close>. Its
    theorems: \<open>os.makedirs\<close> keeps the file system well formed, and on a path
    \<open>./c1/.../cn\<close> of plain names (\<open>rel_path\<close>) creates exactly the missing
    directories among its prefixes (\<open>os_makedirs_creates\<close>, by induction on the path
    built from its last component); loading creates the
    folders and is idempotent, and a file in a folder's place stops the import.
  \<^item> this theory: an upload of the specification's fixture end to end, and, with
    the library's JSON functions as services
    (\<open>json_services\<close>), what the components guarantee together: the structurer
    returns well-formed values, the output file of a 200 answer decodes to the
    answered menu, and a 500 answer of \<open>process_pdf\<close> writes nothing.

  \<^bold>\<open>Bounds and termination.\<close> Every definition is total and executable. The scan of
  \<open>Pattern.sub\<close> terminates because every match it replaces is non-empty
  (\<open>price_pattern_nonempty\<close>) and the scan position grows; \<open>os_makedirs\<close> because
  each recursive call is on a shorter path. The JSON parser is the only recursion
  with fuel: each call of the three parsers takes one unit, and \<open>json_fuel s\<close>
  \<open>= 2 * length s + 2\<close> is enough, since every call that succeeds consumes at least
  one character and an array or object level costs at most two calls per character
  (\<open>parse_enough_all\<close>); more fuel gives the same answer (\<open>parse_value_fuel\<close>), so
  the bound is not a restriction of the model. Python integers are unbounded \<open>int\<close>s
  and \<open>nat\<close>s; the one bound the code meets is CPython's \<open>INT_MAX_STR_DIGITS\<close> (4300)
  in \<open>json.loads\<close> and \<open>json.dump\<close>.

  \<^bold>\<open>Not modelled.\<close> The libraries themselves (pdfplumber's layout analysis,
  poppler's rasterisation, tesseract's recognition, the hosted model) are the opaque
  functions of \<open>backend\<close> and \<open>generate\<close>. In the JSON model the text of a float
  is kept as written and its \<open>repr\<close> is the parameter \<open>fr\<close> (so the round trip is
  stated for float-free values), the recursion limit of CPython is not modelled,
  error messages are those of the exceptions without their positions, and
  \<open>jsonify\<close>'s rendering of the 200 body is the value itself. The API-key set-up
  (\<open>os.environ\<close>, \<open>genai.configure\<close>), \<open>Flask(__name__)\<close>, \<open>app.config\<close>,
  \<open>app.run\<close> and the test block of \<open>src/query_llm.py\<close> (which prints a response
  object) are I/O without decisions. Flask's routing and its
  answer to an uncaught exception are outside the model (an uncaught exception is the
  \<open>Inl\<close> result of a handler), and so is the text of \<open>str(e)\<close>. Symbolic links and
  permissions are outside the file-system model. Characters beyond Latin-1 are outside
  the character model.
\<close>

text \<open>The services of the handlers with the library's JSON functions: \<open>json.loads\<close>
  for the model's reply and \<open>json.dump\<close> for the output file.\<close>

definition json_services :: "'img backend \<Rightarrow> generate \<Rightarrow> (string \<Rightarrow> string) \<Rightarrow> ('img, json) services" where
  "json_services be gen fr = \<lparr>svc_backend = be, svc_generate = gen, svc_loads = json_loads, svc_dump = json_dump fr\<rparr>"

lemma json_pipeline_wf:
  "menu_pipeline be s p gen json_loads = Inr j \<Longrightarrow> json_wf j"
  using json_loads_wf by (auto simp: menu_pipeline_def query_model_to_json_def res_bind_eq_Inr)

lemma process_pdf_save:
  assumes "req_args req ''pdf'' = Some fn" "fn \<noteq> []" "process_pdf sv req s = ((b, c), s')" "c \<noteq> 404" "c \<noteq> 400"
  shows "save_menu_json sv fn (os_path_join UPLOAD_FOLDER fn) s = ((b, c), s')"
  using assms by (auto simp: process_pdf_def Let_def split: if_splits)

text \<open>
  C23: an upload of the fixture, end to end: when the model answers the fixture's
  prompt with a reply the decoder accepts, \<open>upload_pdf\<close> answers 200 with the decoded
  menu, \<open>./output_jsons/menu.json\<close> holds its \<open>json.dump\<close>, and the upload is stored
  as \<open>./example_pdfs/menu.pdf\<close>.
\<close>

theorem upload_pdf_fixture:
  assumes "gen model (format_prompt ''Page 1: Sierra Nevada Pale Ale S13'') = Inr r" and "loads r = Inr j"
    and "dump j = (t, None)"
  shows "\<exists>s'. upload_pdf \<lparr>svc_backend = text_backend, svc_generate = gen, svc_loads = loads, svc_dump = dump\<rparr>
                 (pdf_request (Some ''menu.pdf'') data) sample_fs = Inr ((MenuJson j, 200), s') \<and>
              fs_read s' ''./output_jsons/menu.json'' = Inr t \<and>
              fs_read s' ''./example_pdfs/menu.pdf'' = Inr data"
proof -
  let ?sv = "\<lparr>svc_backend = text_backend, svc_generate = gen, svc_loads = loads, svc_dump = dump\<rparr>"
  let ?p = "''./example_pdfs/menu.pdf''" and ?o = "''./output_jsons/menu.json''"
  have n: "normpath ?p = ''example_pdfs/menu.pdf''" "key_parent ''example_pdfs/menu.pdf'' = ''example_pdfs''"
      "normpath ?o = ''output_jsons/menu.json''" "key_parent ''output_jsons/menu.json'' = ''output_jsons''"
    by code_simp+
  define s1 where "s1 = sample_fs\<lparr>fs_files := (fs_files sample_fs)(''example_pdfs/menu.pdf'' \<mapsto> data)\<rparr>"
  define s2 where "s2 = s1\<lparr>fs_files := (fs_files s1)(''output_jsons/menu.json'' \<mapsto> t)\<rparr>"
  have w1: "fs_write sample_fs ?p data = Inr s1" using n by (simp add: fs_write_def s1_def sample_fs_def)
  have w2: "fs_write s1 ?o t = Inr s2" using n by (simp add: fs_write_def s1_def s2_def sample_fs_def)
  have m: "menu_pipeline text_backend s1 ?p gen loads = Inr j"
    using text_backend_extracted [OF fs_read_write_same [OF w1]] assms
    by (simp add: menu_pipeline_def query_model_to_json_def)
  have ws: "with_suffix ''menu.pdf'' ''.json'' = Inr ''menu.json''" by code_simp
  have oj: "os_path_join OUTPUT_FOLDER ''menu.json'' = ?o"
    using os_path_join_folder [of "''menu''" "''.json''"] by simp
  have "save_menu_json ?sv ''menu.pdf'' ?p s1 = ((MenuJson j, 200), s2)"
    using save_menu_json_written [of ?sv s1 ?p j "''menu.pdf''" "''menu.json''" t None s2] m ws w2 oj assms(3)
    by simp
  then have "upload_pdf ?sv (pdf_request (Some ''menu.pdf'') data) sample_fs = Inr ((MenuJson j, 200), s2)"
    using w1 sample_fs_menu(2) by (simp add: upload_pdf_def pdf_request_def py_endswith_def)
  moreover have "fs_read s2 ?p = Inr data"
    using fs_read_write_other [OF w2] fs_read_write_same [OF w1] n by simp
  ultimately show ?thesis using fs_read_write_same [OF w2] by blast
qed

theorem upload_pdf_fixture_witness:
  "\<exists>s'. upload_pdf \<lparr>svc_backend = text_backend, svc_generate = (\<lambda>m p. Inr ''{}''), svc_loads = Inr,
                    svc_dump = (\<lambda>j. (j, None))\<rparr> (pdf_request (Some ''menu.pdf'') ''%PDF-1.4'') sample_fs =
          Inr ((MenuJson ''{}'', 200), s') \<and>
        fs_read s' ''./output_jsons/menu.json'' = Inr ''{}'' \<and>
        fs_read s' ''./example_pdfs/menu.pdf'' = Inr ''%PDF-1.4''"
  using upload_pdf_fixture [of "\<lambda>m p. Inr ''{}''" "''{}''" Inr "''{}''" "\<lambda>j. (j, None)" "''{}''" "''%PDF-1.4''"]
  by simp

text \<open>
  C7: with \<open>json.loads\<close> as the decoder, every menu the structuring stage returns is
  a well-formed JSON value: a \<open>dict\<close> has distinct keys and every integer is within
  \<open>INT_MAX_STR_DIGITS\<close> digits.
\<close>

theorem query_model_to_json_wf: "query_model_to_json gen json_loads t = Inr v \<Longrightarrow> json_wf v"
  using json_loads_wf by (auto simp: query_model_to_json_def res_bind_eq_Inr)

theorem query_model_to_json_wf_witness:
  "query_model_to_json (\<lambda>m p. Inr ''[1]'') json_loads ''x'' = Inr (JArr [JInt 1]) \<and> json_wf (JArr [JInt 1])"
proof -
  have "json_loads ''[1]'' = Inr (JArr [JInt 1])" by code_simp
  then have "query_model_to_json (\<lambda>m p. Inr ''[1]'') json_loads ''x'' = Inr (JArr [JInt 1])"
    by (simp add: query_model_to_json_def)
  then show ?thesis using query_model_to_json_wf by blast
qed

text \<open>
  C5: the answer and the file agree: with the library's \<open>json.loads\<close> and
  \<open>json.dump\<close>, when \<open>process_pdf\<close> answers 200 with a menu without floats, the file
  \<open>./output_jsons/stem.json\<close> holds a text that \<open>json.loads\<close> decodes to that menu.
\<close>

theorem process_pdf_output_decodes:
  assumes "process_pdf (json_services be gen fr) req s = ((MenuJson j, 200), s')"
    and "req_args req ''pdf'' = Some (stem @ ''.pdf'')" and "CHR ''/'' \<notin> set stem" and "stem \<noteq> []"
    and "float_free j"
  shows "\<exists>t. fs_read s' (''./output_jsons/'' @ stem @ ''.json'') = Inr t \<and> json_loads t = Inr j"
proof -
  let ?sv = "json_services be gen fr" and ?p = "os_path_join UPLOAD_FOLDER (stem @ ''.pdf'')"
  have sv: "save_menu_json ?sv (stem @ ''.pdf'') ?p s = ((MenuJson j, 200), s')"
    using process_pdf_save [OF assms(2) _ assms(1)] by simp
  then obtain j' jf t err s'' where
    m: "menu_pipeline be s ?p gen json_loads = Inr j'" and w: "with_suffix (stem @ ''.pdf'') ''.json'' = Inr jf"
    and d: "json_dump fr j' = (t, err)" and f: "fs_write s (os_path_join OUTPUT_FOLDER jf) t = Inr s''"
    and r: "save_menu_json ?sv (stem @ ''.pdf'') ?p s =
              (case err of None \<Rightarrow> ((MenuJson j', 200), s'') | Some e \<Rightarrow> ((ErrorExc e, 500), s''))"
    using save_menu_json_cases [of ?sv "stem @ ''.pdf''" ?p s] by (auto simp: json_services_def)
  have "err = None" "j' = j" "s'' = s'" using r sv by (auto split: option.splits)
  moreover have "jf = stem @ ''.json''" using w with_suffix_simple [OF assms(3,4)] by simp
  moreover have "json_wf j'" using m by (rule json_pipeline_wf)
  ultimately have "t = chunks_text (enc fr 0 j)" and "fs_write s (''./output_jsons/'' @ stem @ ''.json'') t = Inr s'"
    using d f json_dump_wf [of j fr] os_path_join_folder [OF assms(3,4)] by simp_all
  then show ?thesis
    using fs_read_write_same json_loads_enc [OF \<open>json_wf j'\<close> [unfolded \<open>j' = j\<close>] assms(5)] by blast
qed

theorem process_pdf_output_decodes_witness:
  "\<exists>s'. process_pdf (json_services text_backend (\<lambda>m p. Inr ''[1]'') (\<lambda>x. x)) (arg_request ''menu.pdf'') sample_fs =
          ((MenuJson (JArr [JInt 1]), 200), s') \<and>
        (\<exists>t. fs_read s' ''./output_jsons/menu.json'' = Inr t \<and> json_loads t = Inr (JArr [JInt 1]))"
proof -
  let ?sv = "json_services text_backend (\<lambda>m p. Inr ''[1]'') (\<lambda>x. x)"
  have l: "json_loads ''[1]'' = Inr (JArr [JInt 1])" by code_simp
  have d: "json_dump (\<lambda>x. x) (JArr [JInt 1]) = (''['' @ nl_indent 1 @ ''1'' @ nl_indent 0 @ '']'', None)"
    by code_simp
  have "menu_pipeline (svc_backend ?sv) sample_fs ''./example_pdfs/menu.pdf'' (svc_generate ?sv) (svc_loads ?sv) =
          Inr (JArr [JInt 1])"
    using l by (simp add: json_services_def menu_pipeline_def text_backend_extracted [OF sample_fs_read]
        query_model_to_json_def)
  then obtain s' where "process_pdf ?sv (arg_request ''menu.pdf'') sample_fs = ((MenuJson (JArr [JInt 1]), 200), s')"
    using process_pdf_written [of "arg_request ''menu.pdf''" "''menu''" sample_fs ?sv "JArr [JInt 1]"]
      sample_fs_menu d
    by (fastforce simp: arg_request_def json_services_def)
  moreover have "float_free (JArr [JInt 1])" by simp
  ultimately show ?thesis
    using process_pdf_output_decodes [of text_backend "\<lambda>m p. Inr ''[1]''" "\<lambda>x. x" "arg_request ''menu.pdf''"
        sample_fs "JArr [JInt 1]" _ "''menu''"]
    by (auto simp: arg_request_def)
qed

text \<open>
  C10: with the library's JSON functions, a 500 answer of \<open>process_pdf\<close> leaves the
  file system as it was: every exception the handler catches is raised before the
  output file is opened, since \<open>json.dump\<close> never raises on a value \<open>json.loads\<close>
  returned, so the partial output file of a failing dump cannot occur.
\<close>

theorem process_pdf_error_unchanged:
  assumes "process_pdf (json_services be gen fr) req s = ((ErrorExc e, 500), s')"
  shows "s' = s"
proof (cases "\<exists>fn. req_args req ''pdf'' = Some fn \<and> fn \<noteq> []")
  case True
  then obtain fn where fn: "req_args req ''pdf'' = Some fn" "fn \<noteq> []" by blast
  let ?sv = "json_services be gen fr" and ?p = "os_path_join UPLOAD_FOLDER fn"
  have sv: "save_menu_json ?sv fn ?p s = ((ErrorExc e, 500), s')"
    using process_pdf_save [OF fn assms] by simp
  show ?thesis
  proof (rule ccontr)
    assume "s' \<noteq> s"
    with sv obtain j' jf t err s'' where
      m: "menu_pipeline be s ?p gen json_loads = Inr j'" and d: "json_dump fr j' = (t, err)"
      and r: "save_menu_json ?sv fn ?p s =
                (case err of None \<Rightarrow> ((MenuJson j', 200), s'') | Some e \<Rightarrow> ((ErrorExc e, 500), s''))"
      using save_menu_json_cases [of ?sv fn ?p s] by (auto simp: json_services_def)
    have "err = None" using d json_dump_wf [OF json_pipeline_wf [OF m], of fr] by simp
    with r sv show False by simp
  qed
next
  case False
  with assms show ?thesis by (auto simp: process_pdf_def split: option.splits)
qed

theorem process_pdf_error_unchanged_witness:
  "process_pdf (json_services (text_backend\<lparr>plumber_pages := (\<lambda>d. Inl (PdfOpenError ''bad''))\<rparr>) (\<lambda>m p. Inr ''[1]'') (\<lambda>x. x))
     (arg_request ''menu.pdf'') sample_fs = ((ErrorExc (PdfOpenError ''bad''), 500), sample_fs)"
proof -
  let ?sv = "json_services (text_backend\<lparr>plumber_pages := (\<lambda>d. Inl (PdfOpenError ''bad''))\<rparr>) (\<lambda>m p. Inr ''[1]'') (\<lambda>x. x)"
  have "menu_pipeline (svc_backend ?sv) sample_fs (os_path_join UPLOAD_FOLDER ''menu.pdf'')
             (svc_generate ?sv) (svc_loads ?sv) = Inl (PdfOpenError ''bad'')"
    using sample_fs_menu(2) sample_fs_read by (simp add: json_services_def menu_pipeline_def extract_text_hybrid_def)
  then have "process_pdf ?sv (arg_request ''menu.pdf'') sample_fs = ((ErrorExc (PdfOpenError ''bad''), 500), sample_fs)"
    using sample_fs_menu(1,2) by (simp add: process_pdf_def arg_request_def Let_def save_menu_json_pipeline_error)
  then show ?thesis using process_pdf_error_unchanged [of _ _ _ "arg_request ''menu.pdf''" sample_fs] by simp
qed

end
